theory Spec2Isabelle
  imports Main
begin

section \<open>The .env update utility\<close>

text \<open>
  The utility reads a .env file, replaces the lines of the keys it is given, appends a
  line for every key the file does not hold, and writes the result back through a
  temporary file. Strings are lists of characters, taken as the code units below 256; a
  JavaScript string position is a list index. The white space of
  \<open>String.prototype.trim\<close> and of the regular expression class \<open>\s\<close> in this range
  is space, tab, line feed, vertical tab, form feed, carriage return and the no-break
  space.
\<close>

definition newline :: char where
  "newline = CHR 0x0A"

definition is_ws :: "char \<Rightarrow> bool" where
  "is_ws c \<longleftrightarrow> c \<in> {CHR 0x20, CHR 0x09, CHR 0x0A, CHR 0x0B, CHR 0x0C, CHR 0x0D, CHR 0xA0}"

text \<open>\<open>s.trim()\<close>: white space removed at both ends.\<close>

definition trim :: "string \<Rightarrow> string" where
  "trim s = rev (dropWhile is_ws (rev (dropWhile is_ws s)))"

text \<open>
  \<open>s.split(sep)\<close> for a separator of one character: never empty; the empty string
  gives one empty piece. \<open>content.split("\n")\<close> is the instance of the parser.
\<close>

fun split_on :: "char \<Rightarrow> string \<Rightarrow> string list" where
  "split_on sep [] = [[]]"
| "split_on sep (c # cs) =
     (if c = sep then [] # split_on sep cs
      else (case split_on sep cs of
              [] \<Rightarrow> [[c]]
            | piece # pieces \<Rightarrow> (c # piece) # pieces))"

definition split_nl :: "string \<Rightarrow> string list" where
  "split_nl content = split_on newline content"

text \<open>\<open>lines.join("\n")\<close>.\<close>

fun join_nl :: "string list \<Rightarrow> string" where
  "join_nl [] = []"
| "join_nl [l] = l"
| "join_nl (l # m # ls) = l @ newline # join_nl (m # ls)"

text \<open>\<open>line.indexOf("=")\<close>, with \<open>None\<close> for the result \<open>-1\<close>.\<close>

fun index_of :: "char \<Rightarrow> string \<Rightarrow> nat option" where
  "index_of x [] = None"
| "index_of x (c # cs) =
     (if c = x then Some 0 else map_option Suc (index_of x cs))"

text \<open>
  The body of the loop of \<open>parseDotEnvLines\<close> for one line: the key the line
  defines, if any. Blank lines, comment lines, lines without \<open>=\<close> and lines that
  start with \<open>=\<close> define none.
\<close>

definition line_key :: "string \<Rightarrow> string option" where
  "line_key raw =
     (let line = trim raw in
      if line = [] \<or> take 1 line = ''#'' then None
      else (case index_of (CHR ''='') line of
              None \<Rightarrow> None
            | Some eqIndex \<Rightarrow>
                if eqIndex > 0 then Some (trim (take eqIndex line)) else None))"

text \<open>
  The loop of \<open>parseDotEnvLines\<close> from index \<open>i\<close> on: \<open>keyIndex.set(key, i)\<close>
  overwrites, so a key that occurs twice is indexed at its last line.
\<close>

fun parse_loop :: "string list \<Rightarrow> nat \<Rightarrow> (string \<rightharpoonup> nat) \<Rightarrow> (string \<rightharpoonup> nat)" where
  "parse_loop [] i keyIndex = keyIndex"
| "parse_loop (l # ls) i keyIndex =
     parse_loop ls (Suc i)
       (case line_key l of None \<Rightarrow> keyIndex | Some key \<Rightarrow> keyIndex(key \<mapsto> i))"

definition parseDotEnvLines :: "string \<Rightarrow> string list \<times> (string \<rightharpoonup> nat)" where
  "parseDotEnvLines content =
     (let lines = split_nl content in (lines, parse_loop lines 0 Map.empty))"

text \<open>
  \<open>formatEnvLine\<close>: a value with white space, \<open>#\<close>, a quote or a backslash is
  wrapped in double quotes, its backslashes doubled first and its double quotes escaped
  after.
\<close>

definition needsQuoting :: "string \<Rightarrow> bool" where
  "needsQuoting v \<longleftrightarrow>
     (\<exists>c \<in> set v. is_ws c \<or> c = CHR ''#'' \<or> c = CHR 0x22 \<or> c = CHR 0x27 \<or> c = CHR 0x5C)"

definition escape_backslashes :: "string \<Rightarrow> string" where
  "escape_backslashes v =
     concat (map (\<lambda>c. if c = CHR 0x5C then [CHR 0x5C, CHR 0x5C] else [c]) v)"

definition escape_quotes :: "string \<Rightarrow> string" where
  "escape_quotes v =
     concat (map (\<lambda>c. if c = CHR 0x22 then [CHR 0x5C, CHR 0x22] else [c]) v)"

definition formatEnvLine :: "string \<Rightarrow> string \<Rightarrow> string" where
  "formatEnvLine key v =
     (if needsQuoting v
      then key @ ''='' @ [CHR 0x22] @ escape_quotes (escape_backslashes v) @ [CHR 0x22]
      else key @ ''='' @ v)"

text \<open>
  The update loop of \<open>updateDotEnvFile\<close>. The index map is the one of the parse and is
  not refreshed: an indexed key overwrites its line, any other key pushes a new line.
  An index of the map is always inside the array (lemma \<open>keyIndex_sound\<close>), so the
  assignment never extends it.
\<close>

fun apply_updates :: "(string \<rightharpoonup> nat) \<Rightarrow> (string \<times> string) list \<Rightarrow> string list \<Rightarrow> string list" where
  "apply_updates keyIndex [] lines = lines"
| "apply_updates keyIndex ((key, v) # updates) lines =
     apply_updates keyIndex updates
       (case keyIndex key of
          Some existingIndex \<Rightarrow> lines[existingIndex := formatEnvLine key v]
        | None \<Rightarrow> lines @ [formatEnvLine key v])"

text \<open>\<open>s.replace(/\n*$/, "\n")\<close>: the line feeds at the end become exactly one.\<close>

definition normalize_trailing :: "string \<Rightarrow> string" where
  "normalize_trailing s = rev (dropWhile (\<lambda>c. c = newline) (rev s)) @ [newline]"

definition updated_lines :: "string \<Rightarrow> (string \<times> string) list \<Rightarrow> string list" where
  "updated_lines content updates =
     (case parseDotEnvLines content of
        (lines, keyIndex) \<Rightarrow> apply_updates keyIndex updates lines)"

definition update_output :: "string \<Rightarrow> (string \<times> string) list \<Rightarrow> string" where
  "update_output content updates =
     normalize_trailing (join_nl (updated_lines content updates))"


subsection \<open>The atomic write\<close>








text \<open>
  \<open>path.dirname\<close> of Node (POSIX): the loop runs from the last character down to
  index 1, skips the slashes at the end and stops at the first slash after a character
  that is none.
\<close>

fun dirname_loop :: "string \<Rightarrow> nat \<Rightarrow> bool \<Rightarrow> nat option" where
  "dirname_loop p 0 matchedSlash = None"
| "dirname_loop p (Suc i) matchedSlash =
     (if p ! Suc i = CHR ''/''
      then (if \<not> matchedSlash then Some (Suc i) else dirname_loop p i matchedSlash)
      else dirname_loop p i False)"

definition dirname :: "string \<Rightarrow> string" where
  "dirname p =
     (if p = [] then ''.''
      else (case dirname_loop p (length p - 1) True of
              None \<Rightarrow> (if hd p = CHR ''/'' then ''/'' else ''.'')
            | Some e \<Rightarrow> (if hd p = CHR ''/'' \<and> e = 1 then ''//'' else take e p)))"





section \<open>The session state engine\<close>

text \<open>
  Modelled from the spec: the engine that owns the session record (the script
  \<open>rpg_state.py\<close> that the game master's guide calls) is not among the source files.
  The data model follows section 3 of the specification and the persisted record of
  section 6; every operation follows the sentences of section 4 that describe it. The
  clock is an argument (\<open>now\<close>, in seconds), as section 5 asks.
\<close>

datatype mode = Rp | Combat | Cutscene

datatype activity = Active | Idle | Afk

text \<open>Modelled from the spec: a controller is a viewer identifier or the literal \<open>bot\<close>.\<close>

record participant =
  controller :: string
  activityStatus :: activity
  skipCount :: nat
  lastActionAt :: "int option"

record token =
  tokenMap :: string
  tokenPosition :: string
  color :: "string option"
  hidden :: bool

text \<open>
  Modelled from the spec: participants and tokens are keyed by the character name (the unique key of the data
  model); the action log is append-only, the newest entry last.
\<close>

record session =
  mode :: mode
  activeMap :: "string option"
  act :: string
  scene :: string
  crawlText :: "string option"
  participants :: "string \<rightharpoonup> participant"
  initiative :: "string list"
  currentIndex :: "nat option"
  deadline :: "int option"
  turnTimeout :: int
  tokens :: "string \<rightharpoonup> token"
  actionLog :: "(string \<times> int \<times> string) list"

text \<open>
  Modelled from the spec: the terrain of one map, authored outside the engine and only read by it: the named
  positions by zone, the obstacles, the connections of this map (exit position, other
  map, entry position) and the default entry position, when one is declared.
\<close>

record terrain =
  zones :: "(string \<times> string list) list"
  obstacles :: "string list"
  connections :: "(string \<times> string \<times> string) list"
  defaultEntry :: "string option"

text \<open>Modelled from the spec: the failure kinds of section 7.\<close>

datatype error =
    ValidationError string
  | NotYourTurn string
  | NarratorOnly
  | NoConnection
  | UnknownPosition string "string list"
  | StorageError
  | StateInvariantViolation

text \<open>Modelled from the spec: who submitted a command: the narrator's own channel or the chat.\<close>

datatype channel = NarratorChannel | ChatChannel

datatype reply = Done | Remaining int | Advanced string

definition init_session :: session where
  "init_session =
     \<lparr>mode = Rp, activeMap = None, act = [], scene = [], crawlText = None,
      participants = Map.empty, initiative = [], currentIndex = None, deadline = None,
      turnTimeout = 120, tokens = Map.empty, actionLog = []\<rparr>"

subsection \<open>Activity\<close>

text \<open>Modelled from the spec: the skip-count state machine: 0 and 1 are active, 2 is idle, 3 and more are afk.\<close>

definition status_of :: "nat \<Rightarrow> activity" where
  "status_of n = (if n \<le> 1 then Active else if n = 2 then Idle else Afk)"

definition controller_of :: "session \<Rightarrow> string \<Rightarrow> string option" where
  "controller_of s c = map_option controller (participants s c)"

text \<open>
  Modelled from the spec: \<open>join\<close>: the viewer takes control of the character whatever its state; the skip
  count is 0 and the status active afterwards. A character without a row gets one.
\<close>

definition join :: "string \<Rightarrow> string \<Rightarrow> session \<Rightarrow> error + session" where
  "join viewer c s =
     Inr (s\<lparr>participants := (participants s)(c \<mapsto>
            \<lparr>controller = viewer, activityStatus = Active, skipCount = 0,
             lastActionAt = (case participants s c of None \<Rightarrow> None | Some p \<Rightarrow> lastActionAt p)\<rparr>)\<rparr>)"

subsection \<open>Turns and modes\<close>

text \<open>Modelled from the spec: the character at the current-turn pointer, when the pointer is a valid index.\<close>

definition current_character :: "session \<Rightarrow> string option" where
  "current_character s =
     (case currentIndex s of
        None \<Rightarrow> None
      | Some i \<Rightarrow> if i < length (initiative s) then Some (initiative s ! i) else None)"

text \<open>
  Modelled from the spec: \<open>set-mode\<close>: the explicit transitions of the table are between \<open>rp\<close> and
  \<open>cutscene\<close> and from \<open>combat\<close> to \<open>cutscene\<close>; none of them touches the initiative
  sequence. Every other pair is refused.
\<close>

definition set_mode :: "mode \<Rightarrow> session \<Rightarrow> error + session" where
  "set_mode m s =
     (if (mode s = Rp \<and> m = Cutscene) \<or> (mode s = Cutscene \<and> m = Rp)
         \<or> (mode s = Combat \<and> m = Cutscene)
      then Inr (s\<lparr>mode := m\<rparr>)
      else Inl (ValidationError ''mode transition''))"

text \<open>
  Modelled from the spec: \<open>initiative\<close>: from \<open>rp\<close> to \<open>combat\<close>, the sequence in the order given, the pointer
  at 0, the deadline \<open>now + timeoutSeconds\<close>. An empty list is refused: the sequence of
  a combat is never empty.
\<close>

definition initiative_cmd :: "int \<Rightarrow> string list \<Rightarrow> int \<Rightarrow> session \<Rightarrow> error + session" where
  "initiative_cmd now characters timeoutSeconds s =
     (if mode s \<noteq> Rp then Inl (ValidationError ''mode'')
      else if characters = [] then Inl (ValidationError ''characters'')
      else Inr (s\<lparr>mode := Combat, initiative := characters, currentIndex := Some 0,
                  deadline := Some (now + timeoutSeconds), turnTimeout := timeoutSeconds\<rparr>))"

text \<open>
  Modelled from the spec: a character acted in the current turn when its last accepted action is not older than
  the start of the turn, which is the deadline less the timeout.
\<close>

definition acted_this_turn :: "session \<Rightarrow> string \<Rightarrow> bool" where
  "acted_this_turn s c =
     (case (participants s c, deadline s) of
        (Some p, Some d) \<Rightarrow>
          (case lastActionAt p of None \<Rightarrow> False | Some t \<Rightarrow> d - turnTimeout s \<le> t)
      | _ \<Rightarrow> False)"

definition reset_skip :: "participant \<Rightarrow> participant" where
  "reset_skip p = p\<lparr>skipCount := 0, activityStatus := Active\<rparr>"

text \<open>
  Modelled from the spec: the transition of \<open>next-turn\<close> on a state whose pointer is \<open>i\<close>: the skip counter
  of the character whose turn ends is reset only if it acted, the pointer advances modulo
  the length of the sequence, and the new deadline is set.
\<close>

definition advance_turn :: "int \<Rightarrow> nat \<Rightarrow> session \<Rightarrow> session" where
  "advance_turn now i s =
     (let c = initiative s ! i;
          ps = (case participants s c of
                  Some p \<Rightarrow> if acted_this_turn s c then (participants s)(c \<mapsto> reset_skip p)
                            else participants s
                | None \<Rightarrow> participants s)
      in s\<lparr>participants := ps,
            currentIndex := Some (Suc i mod length (initiative s)),
            deadline := Some (now + turnTimeout s)\<rparr>)"

definition next_turn :: "int \<Rightarrow> session \<Rightarrow> error + session" where
  "next_turn now s =
     (if mode s \<noteq> Combat then Inl (ValidationError ''mode'')
      else (case currentIndex s of
              None \<Rightarrow> Inl StateInvariantViolation
            | Some i \<Rightarrow>
                if i < length (initiative s) then Inr (advance_turn now i s)
                else Inl StateInvariantViolation))"

text \<open>Modelled from the spec: \<open>end-combat\<close>: back to \<open>rp\<close>, the sequence and the pointer cleared.\<close>

definition end_combat :: "session \<Rightarrow> error + session" where
  "end_combat s =
     Inr (s\<lparr>mode := Rp, initiative := [], currentIndex := None, deadline := None\<rparr>)"

text \<open>
  Modelled from the spec: a skipped turn: the counter goes up by one, the status follows it, and the counter
  reaching 3 hands the character to the bot.
\<close>

definition skip_turn :: "participant \<Rightarrow> participant" where
  "skip_turn p =
     p\<lparr>skipCount := Suc (skipCount p),
       activityStatus := status_of (Suc (skipCount p)),
       controller := (if Suc (skipCount p) = 3 then ''bot'' else controller p)\<rparr>"

text \<open>
  Modelled from the spec: \<open>auto-advance\<close>: before the deadline nothing changes and the remaining seconds are
  reported; from the deadline on the character of the turn is skipped and the transition
  of \<open>next-turn\<close> follows.
\<close>

definition auto_advance :: "int \<Rightarrow> session \<Rightarrow> error + session \<times> reply" where
  "auto_advance now s =
     (if mode s \<noteq> Combat then Inl (ValidationError ''mode'')
      else (case (currentIndex s, deadline s) of
              (Some i, Some d) \<Rightarrow>
                if \<not> i < length (initiative s) then Inl StateInvariantViolation
                else if now < d then Inr (s, Remaining (d - now))
                else
                  (let c = initiative s ! i;
                       skipped = (case participants s c of
                                    Some p \<Rightarrow> s\<lparr>participants := (participants s)(c \<mapsto> skip_turn p)\<rparr>
                                  | None \<Rightarrow> s)
                   in Inr (advance_turn now i skipped, Advanced c))
            | _ \<Rightarrow> Inl StateInvariantViolation))"

text \<open>
  Modelled from the spec: an accepted action: one more entry in the log, the participant's skip count back to 0,
  its status active, its last action now.
\<close>

definition accept_action :: "int \<Rightarrow> string \<Rightarrow> string \<Rightarrow> session \<Rightarrow> session" where
  "accept_action now c txt s =
     s\<lparr>participants :=
          (case participants s c of
             None \<Rightarrow> participants s
           | Some p \<Rightarrow> (participants s)(c \<mapsto> (reset_skip p)\<lparr>lastActionAt := Some now\<rparr>)),
       actionLog := actionLog s @ [(c, now, txt)]\<rparr>"

text \<open>
  Modelled from the spec: \<open>log-action\<close>. In a cutscene only the narrator's channel is heard. In combat the
  action is accepted only for the character at the pointer and from its controller; any
  other call is answered \<open>NotYourTurn\<close> with the name of the character whose turn it is.
  In \<open>rp\<close> the controller of an existing character is always accepted.
\<close>

definition log_action :: "channel \<Rightarrow> int \<Rightarrow> string \<Rightarrow> string \<Rightarrow> string \<Rightarrow> session \<Rightarrow> error + session" where
  "log_action ch now viewer c txt s =
     (case mode s of
        Cutscene \<Rightarrow>
          if ch \<noteq> NarratorChannel then Inl NarratorOnly
          else if participants s c = None then Inl (ValidationError ''character'')
          else Inr (accept_action now c txt s)
      | Combat \<Rightarrow>
          (case current_character s of
             None \<Rightarrow> Inl StateInvariantViolation
           | Some cur \<Rightarrow>
               if c = cur \<and> controller_of s cur = Some viewer
               then Inr (accept_action now c txt s)
               else Inl (NotYourTurn cur))
      | Rp \<Rightarrow>
          if controller_of s c = Some viewer then Inr (accept_action now c txt s)
          else Inl (ValidationError ''character''))"


subsection \<open>Positions\<close>

definition named_positions :: "terrain \<Rightarrow> string list" where
  "named_positions t = concat (map snd (zones t))"

text \<open>
  Modelled from the spec: \<open>move-token\<close>: the map must have terrain loaded and the position must be one of its
  named positions (exact match); the token record is then replaced as a whole.
\<close>

definition move_token ::
  "(string \<rightharpoonup> terrain) \<Rightarrow> string \<Rightarrow> string \<Rightarrow> string \<Rightarrow> string option \<Rightarrow> bool \<Rightarrow> session
     \<Rightarrow> error + session" where
  "move_token terrains c m pos col hid s =
     (case terrains m of
        None \<Rightarrow> Inl (ValidationError ''map'')
      | Some t \<Rightarrow>
          if pos \<in> set (named_positions t)
          then Inr (s\<lparr>tokens := (tokens s)(c \<mapsto>
                 \<lparr>tokenMap = m, tokenPosition = pos, color = col, hidden = hid\<rparr>)\<rparr>)
          else Inl (UnknownPosition pos (named_positions t)))"

text \<open>
  Modelled from the spec: the connection entry of the source map's table whose exit is the character's position
  and whose other map is the destination.
\<close>

definition find_connection ::
  "(string \<rightharpoonup> terrain) \<Rightarrow> token \<Rightarrow> string \<Rightarrow> (string \<times> string \<times> string) option" where
  "find_connection terrains tk toMap =
     (case terrains (tokenMap tk) of
        None \<Rightarrow> None
      | Some src \<Rightarrow>
          find (\<lambda>(exitPosition, otherMap, entryPosition).
                  exitPosition = tokenPosition tk \<and> otherMap = toMap) (connections src))"

text \<open>
  Modelled from the spec: the landing position of a transfer without a position argument: the entry position of
  the connection found, else the default entry of the destination, else no connection.
\<close>

definition resolve_landing ::
  "(string \<rightharpoonup> terrain) \<Rightarrow> token \<Rightarrow> string \<Rightarrow> terrain \<Rightarrow> error + string" where
  "resolve_landing terrains tk toMap dst =
     (case find_connection terrains tk toMap of
        Some (exitPosition, otherMap, entryPosition) \<Rightarrow> Inr entryPosition
      | None \<Rightarrow>
          (case defaultEntry dst of
             Some d \<Rightarrow> Inr d
           | None \<Rightarrow> Inl NoConnection))"

text \<open>
  Modelled from the spec: \<open>transfer-token\<close>: the character must have a token and the destination must have
  terrain loaded. A position that is given is checked as in \<open>move-token\<close>; one that is
  omitted is resolved. The token keeps its colour and its hidden flag.
\<close>

definition transfer_token ::
  "(string \<rightharpoonup> terrain) \<Rightarrow> string \<Rightarrow> string \<Rightarrow> string option \<Rightarrow> session \<Rightarrow> error + session" where
  "transfer_token terrains c toMap position s =
     (case tokens s c of
        None \<Rightarrow> Inl (ValidationError ''character'')
      | Some tk \<Rightarrow>
          (case terrains toMap of
             None \<Rightarrow> Inl (ValidationError ''map'')
           | Some dst \<Rightarrow>
               (case (case position of
                        Some pos \<Rightarrow>
                          if pos \<in> set (named_positions dst) then Inr pos
                          else Inl (UnknownPosition pos (named_positions dst))
                      | None \<Rightarrow> resolve_landing terrains tk toMap dst) of
                  Inl e \<Rightarrow> Inl e
                | Inr landing \<Rightarrow>
                    Inr (s\<lparr>tokens := (tokens s)(c \<mapsto>
                           tk\<lparr>tokenMap := toMap, tokenPosition := landing\<rparr>)\<rparr>))))"

text \<open>Modelled from the spec: \<open>switch-scene\<close>: the active map changes and nothing else does.\<close>

definition switch_scene :: "string \<Rightarrow> string \<Rightarrow> session \<Rightarrow> error + session" where
  "switch_scene m name s = Inr (s\<lparr>activeMap := Some m\<rparr>)"

subsection \<open>Commands\<close>

datatype command =
    Join string string
  | SetMode mode
  | Initiative "string list" int
  | NextTurn
  | EndCombat
  | AutoAdvance
  | LogAction string string string
  | MoveToken string string string "string option" bool
  | TransferToken string string "string option"
  | SwitchScene string string

definition reply_done :: "error + session \<Rightarrow> error + session \<times> reply" where
  "reply_done r = (case r of Inl e \<Rightarrow> Inl e | Inr s \<Rightarrow> Inr (s, Done))"

fun exec :: "(string \<rightharpoonup> terrain) \<Rightarrow> channel \<Rightarrow> int \<Rightarrow> command \<Rightarrow> session \<Rightarrow> error + session \<times> reply" where
  "exec terrains ch now (Join viewer c) s = reply_done (join viewer c s)"
| "exec terrains ch now (SetMode m) s = reply_done (set_mode m s)"
| "exec terrains ch now (Initiative characters timeoutSeconds) s =
     reply_done (initiative_cmd now characters timeoutSeconds s)"
| "exec terrains ch now NextTurn s = reply_done (next_turn now s)"
| "exec terrains ch now EndCombat s = reply_done (end_combat s)"
| "exec terrains ch now AutoAdvance s = auto_advance now s"
| "exec terrains ch now (LogAction viewer c txt) s = reply_done (log_action ch now viewer c txt s)"
| "exec terrains ch now (MoveToken c m pos col hid) s = reply_done (move_token terrains c m pos col hid s)"
| "exec terrains ch now (TransferToken c toMap position) s =
     reply_done (transfer_token terrains c toMap position s)"
| "exec terrains ch now (SwitchScene m name) s = reply_done (switch_scene m name s)"

text \<open>
  Modelled from the spec: a command is applied to a copy of the state: a failure leaves the state as it was and
  is returned to the caller.
\<close>

definition run_command ::
  "(session \<Rightarrow> error + session \<times> reply) \<Rightarrow> session \<Rightarrow> session \<times> (error + reply)" where
  "run_command fn s =
     (case fn s of Inl e \<Rightarrow> (s, Inl e) | Inr (s', r) \<Rightarrow> (s', Inr r))"

text \<open>Modelled from the spec: the states a session goes through from its creation, command after command.\<close>

inductive reachable :: "(string \<rightharpoonup> terrain) \<Rightarrow> session \<Rightarrow> bool" for terrains where
  reach_init: "reachable terrains init_session"
| reach_step: "reachable terrains s \<Longrightarrow> exec terrains ch now cmd s = Inr (s', r)
                \<Longrightarrow> reachable terrains s'"

subsection \<open>The state store\<close>





section \<open>The render server\<close>

text \<open>
  The HTTP server of \<open>remotion/server.js\<close>. A request is its method, the path name of
  its URL (as \<open>new URL\<close> parsed it) and what \<open>parseBody\<close> makes of its body. The world around the server is the
  environment variable \<open>RPG_STATE_FILE\<close>, the files that can be read (reading any
  other path throws), the directories that exist, the working directory and the fate of
  a spawned render.
\<close>

definition starts_with :: "string \<Rightarrow> string \<Rightarrow> bool" where
  "starts_with pre s \<longleftrightarrow> take (length pre) s = pre"

subsection \<open>Paths\<close>

text \<open>
  \<open>path.resolve\<close> of Node (POSIX) with one argument: a relative path is put under
  the working directory, which is absolute; empty segments and \<open>.\<close> are dropped, \<open>..\<close>
  removes the segment before it and does nothing at the root; the result has no slash at
  the end, except for the root itself.
\<close>

fun normalize_segments :: "string list \<Rightarrow> string list \<Rightarrow> string list" where
  "normalize_segments [] acc = rev acc"
| "normalize_segments (seg # segs) acc =
     (if seg = [] \<or> seg = ''.'' then normalize_segments segs acc
      else if seg = ''..'' then normalize_segments segs (tl acc)
      else normalize_segments segs (seg # acc))"

definition join_slash :: "string list \<Rightarrow> string" where
  "join_slash segs = concat (map (\<lambda>seg. CHR ''/'' # seg) segs)"

definition pathResolve :: "string \<Rightarrow> string \<Rightarrow> string" where
  "pathResolve cwd p =
     (let full = (if starts_with ''/'' p then p else cwd @ ''/'' @ p);
          segs = normalize_segments (split_on (CHR ''/'') full) []
      in if segs = [] then ''/'' else join_slash segs)"

subsection \<open>Rendering\<close>

definition RENDERS_DIR :: string where
  "RENDERS_DIR = ''/renders''"

definition VALID_COMPOSITIONS :: "string list" where
  "VALID_COMPOSITIONS =
     [''StreamIntro'', ''SH-StreamIntro'', ''EpisodeCard'', ''SH-EpisodeCard'',
      ''EpisodeOutro'', ''SH-EpisodeOutro'', ''HoldingScreen'', ''SH-HoldingScreen'',
      ''NarratedSegment'', ''SH-NarratedSegment'']"

text \<open>
  A value of the request body: a string, or another value, of which only its truth
  matters (\<open>undefined\<close>, \<open>null\<close>, \<open>0\<close> and \<open>false\<close> are falsy).
\<close>

datatype jsval = JString string | JFalsy | JTruthy

definition truthy :: "jsval \<Rightarrow> bool" where
  "truthy v = (case v of JString s \<Rightarrow> s \<noteq> [] | JFalsy \<Rightarrow> False | JTruthy \<Rightarrow> True)"

datatype effect =
    FsRead string
  | FsMkdir string
  | ProcSpawn "string list" string

datatype render_error =
    UnknownCompositionId
  | OutputPathOutside
  | PathTypeError

text \<open>The command line of a render, \<open>args\<close> of the source.\<close>

definition render_args :: "string \<Rightarrow> string \<Rightarrow> string \<Rightarrow> string list" where
  "render_args cid resolved propsJson =
     [''npx'', ''remotion'', ''render'', ''src/index.ts'', cid, resolved,
      ''--props='' @ propsJson, ''--log=verbose'']"

text \<open>
  \<open>renderVideo\<close> up to the spawn: an error is thrown before any effect; otherwise the
  output directory is made when it does not exist and the render is spawned in \<open>/app\<close>.
  \<open>propsJson\<close> is \<open>JSON.stringify(props)\<close>. A value that is no string is in no set of
  strings, and \<open>path.resolve\<close> throws a \<open>TypeError\<close> on it.
\<close>

definition renderVideo ::
  "(string \<Rightarrow> bool) \<Rightarrow> string \<Rightarrow> jsval \<Rightarrow> string \<Rightarrow> jsval \<Rightarrow> render_error + effect list" where
  "renderVideo existsSync cwd compositionId propsJson outputPath =
     (case compositionId of
        JString cid \<Rightarrow>
          if cid \<notin> set VALID_COMPOSITIONS then Inl UnknownCompositionId
          else (case outputPath of
                  JString out \<Rightarrow>
                    (let resolved = pathResolve cwd out in
                     if \<not> starts_with (RENDERS_DIR @ ''/'') resolved then Inl OutputPathOutside
                     else
                       (let outDir = dirname resolved in
                        Inr ((if existsSync outDir then [] else [FsMkdir outDir]) @
                             [ProcSpawn (render_args cid resolved propsJson) ''/app''])))
                | _ \<Rightarrow> Inl PathTypeError)
      | _ \<Rightarrow> Inl UnknownCompositionId)"

subsection \<open>Text and bytes\<close>

text \<open>
  A file is a list of bytes (numbers below 256). \<open>readFileSync(path, "utf-8")\<close> gives
  a string: the bytes decoded as UTF-8, every ill-formed sequence replaced by U+FFFD
  and a byte order mark kept. A string that is sent is encoded as UTF-8 again. A
  string is taken as the list of its code points: one that a decoder made has no lone
  surrogate.

  The decoder is the state machine of the Encoding Standard: the number of continuation
  bytes still needed, the code point so far and the bounds of the next byte. A byte out
  of these bounds ends the sequence with U+FFFD and is read again.
\<close>

type_synonym bytes = "nat list"

type_synonym codepoints = "nat list"

function utf8_dec :: "nat \<Rightarrow> nat \<Rightarrow> nat \<Rightarrow> nat \<Rightarrow> nat list \<Rightarrow> nat list" where
  "utf8_dec 0 cp lo hi [] = []"
| "utf8_dec (Suc k) cp lo hi [] = [0xFFFD]"
| "utf8_dec 0 cp lo hi (b # bs) =
     (if b \<le> 0x7F then b # utf8_dec 0 0 0x80 0xBF bs
      else if 0xC2 \<le> b \<and> b \<le> 0xDF then utf8_dec 1 (b mod 32) 0x80 0xBF bs
      else if 0xE0 \<le> b \<and> b \<le> 0xEF
        then utf8_dec 2 (b mod 16) (if b = 0xE0 then 0xA0 else 0x80)
               (if b = 0xED then 0x9F else 0xBF) bs
      else if 0xF0 \<le> b \<and> b \<le> 0xF4
        then utf8_dec 3 (b mod 8) (if b = 0xF0 then 0x90 else 0x80)
               (if b = 0xF4 then 0x8F else 0xBF) bs
      else 0xFFFD # utf8_dec 0 0 0x80 0xBF bs)"
| "utf8_dec (Suc k) cp lo hi (b # bs) =
     (if b < lo \<or> hi < b then 0xFFFD # utf8_dec 0 0 0x80 0xBF (b # bs)
      else if k = 0 then (cp * 64 + b mod 64) # utf8_dec 0 0 0x80 0xBF bs
      else utf8_dec k (cp * 64 + b mod 64) 0x80 0xBF bs)"
  by pat_completeness auto
termination
  by (relation "measure (\<lambda>(k, cp, lo, hi, bs). 2 * length bs + (if k = 0 then 0 else 1))") auto

definition utf8_decode :: "bytes \<Rightarrow> codepoints" where
  "utf8_decode bs = utf8_dec 0 0 0x80 0xBF bs"

text \<open>The encoder; a lone surrogate is sent as U+FFFD.\<close>

definition utf8_encode_cp :: "nat \<Rightarrow> nat list" where
  "utf8_encode_cp cp =
     (if cp < 0x80 then [cp]
      else if cp < 0x800 then [0xC0 + cp div 64, 0x80 + cp mod 64]
      else if 0xD800 \<le> cp \<and> cp \<le> 0xDFFF then [0xEF, 0xBF, 0xBD]
      else if cp < 0x10000
        then [0xE0 + cp div 4096, 0x80 + cp div 64 mod 64, 0x80 + cp mod 64]
      else [0xF0 + cp div 262144, 0x80 + cp div 4096 mod 64, 0x80 + cp div 64 mod 64,
            0x80 + cp mod 64])"

definition utf8_encode :: "codepoints \<Rightarrow> bytes" where
  "utf8_encode cps = concat (map utf8_encode_cp cps)"

text \<open>A Unicode scalar value: a code point that is no surrogate.\<close>

definition scalar_value :: "nat \<Rightarrow> bool" where
  "scalar_value cp \<longleftrightarrow> cp < 0x110000 \<and> \<not> (0xD800 \<le> cp \<and> cp \<le> 0xDFFF)"

text \<open>Well-formed UTF-8: the encoding of a sequence of scalar values.\<close>

definition well_formed_utf8 :: "bytes \<Rightarrow> bool" where
  "well_formed_utf8 bs \<longleftrightarrow> (\<exists>cps. list_all scalar_value cps \<and> bs = utf8_encode cps)"

subsection \<open>Requests\<close>

datatype json =
    JStr string
  | JBool bool
  | JArr "json list"
  | JObj "(string \<times> json) list"

datatype body = JsonBody json | TextBody codepoints

record response =
  status :: nat
  contentType :: string
  body :: body

text \<open>\<open>sendJson\<close>; \<open>JSON.stringify\<close> is left symbolic.\<close>

definition sendJson :: "nat \<Rightarrow> json \<Rightarrow> response" where
  "sendJson st data = \<lparr>status = st, contentType = ''application/json'', body = JsonBody data\<rparr>"

text \<open>
  What \<open>parseBody\<close> and the destructuring make of the request body: too large, no JSON,
  \<open>null\<close> (which cannot be destructured), or the three fields, \<open>props\<close> already as
  \<open>JSON.stringify(props || {})\<close>.
\<close>

datatype parsed_body =
    BodyTooLarge
  | InvalidJSON
  | ParsedNull string
  | Parsed jsval string jsval

text \<open>
  What happens to a render that was spawned: the spawn fails, or the process closes with
  an exit code (as the template string prints it, \<open>0\<close> for success) and its error
  output.
\<close>

datatype render_outcome =
    SpawnFailed string
  | Exited string string

record request =
  reqMethod :: string
  reqPathname :: string
  reqBody :: parsed_body

record world =
  rpgStateFile :: "string option"
  files :: "string \<rightharpoonup> bytes"
  dirExists :: "string \<Rightarrow> bool"
  cwd :: string
  mkdirFails :: "string option"
  outcome :: render_outcome
  serveStatic :: "string \<Rightarrow> response option"

definition sendFailure :: "nat \<Rightarrow> string \<Rightarrow> response" where
  "sendFailure st msg = sendJson st (JObj [(''success'', JBool False), (''error'', JStr msg)])"

text \<open>
  The \<open>POST /render\<close> branch. The effects are those that happened: a failing
  \<open>mkdirSync\<close> is the last of them, and nothing is spawned after it.
\<close>

definition handleRender :: "world \<Rightarrow> parsed_body \<Rightarrow> response \<times> effect list" where
  "handleRender w b =
     (case b of
        BodyTooLarge \<Rightarrow> (sendFailure 400 ''Request body too large'', [])
      | InvalidJSON \<Rightarrow> (sendFailure 500 ''Invalid JSON'', [])
      | ParsedNull msg \<Rightarrow> (sendFailure 500 msg, [])
      | Parsed compositionId propsJson outputPath \<Rightarrow>
          if \<not> truthy compositionId \<or> \<not> truthy outputPath
          then (sendFailure 400 ''Missing compositionId or outputPath'', [])
          else
            (case renderVideo (dirExists w) (cwd w) compositionId propsJson outputPath of
               Inl UnknownCompositionId \<Rightarrow>
                 (sendFailure 400 (''Unknown compositionId: '' @
                    (case compositionId of JString cid \<Rightarrow> cid | _ \<Rightarrow> [])), [])
             | Inl OutputPathOutside \<Rightarrow>
                 (sendFailure 400 (''outputPath must be under '' @ RENDERS_DIR @ ''/''), [])
             | Inl PathTypeError \<Rightarrow> (sendFailure 500 ''TypeError'', [])
             | Inr effs \<Rightarrow>
                 (case (mkdirFails w, effs) of
                    (Some msg, FsMkdir d # rest) \<Rightarrow> (sendFailure 500 msg, [FsMkdir d])
                  | _ \<Rightarrow>
                    (case outcome w of
                       SpawnFailed msg \<Rightarrow> (sendFailure 500 msg, effs)
                     | Exited code stderr \<Rightarrow>
                         if code = ''0''
                         then (sendJson 200 (JObj [(''success'', JBool True),
                                 (''outputPath'',
                                  JStr (case outputPath of JString out \<Rightarrow> out | _ \<Rightarrow> []))]), effs)
                         else (sendFailure 500
                                 (''Render failed with code '' @ code @ '': '' @ stderr), effs)))))"

definition default_state_file :: string where
  "default_state_file = ''/home/node/.clawdbot/rpg/state/game-state.json''"

definition statePath :: "world \<Rightarrow> string" where
  "statePath w =
     (case rpgStateFile w of
        None \<Rightarrow> default_state_file
      | Some p \<Rightarrow> if p = [] then default_state_file else p)"

text \<open>\<open>handleRequest\<close>: the branches in the order of the source, the first match wins.\<close>

definition handleRequest :: "world \<Rightarrow> request \<Rightarrow> response \<times> effect list" where
  "handleRequest w req =
     (if reqMethod req = ''GET'' \<and> reqPathname req = ''/health''
      then (sendJson 200 (JObj [(''status'', JStr ''ok'')]), [])
      else if reqMethod req = ''POST'' \<and> reqPathname req = ''/render''
      then handleRender w (reqBody req)
      else if reqMethod req = ''GET'' \<and> reqPathname req = ''/compositions''
      then (sendJson 200 (JObj [(''compositions'', JArr (map JStr VALID_COMPOSITIONS))]), [])
      else if reqMethod req = ''GET'' \<and> reqPathname req = ''/game/state''
      then (case map_option utf8_decode (files w (statePath w)) of
              Some data \<Rightarrow>
                (\<lparr>status = 200, contentType = ''application/json'', body = TextBody data\<rparr>,
                 [FsRead (statePath w)])
            | None \<Rightarrow>
                (sendJson 404 (JObj [(''error'', JStr ''No active game state'')]),
                 [FsRead (statePath w)]))
      else if reqMethod req = ''GET''
      then (case serveStatic w (reqPathname req) of
              Some r \<Rightarrow> (r, [])
            | None \<Rightarrow> (sendJson 404 (JObj [(''error'', JStr ''Not found'')]), []))
      else (sendJson 404 (JObj [(''error'', JStr ''Not found'')]), []))"

text \<open>
  The bytes of a response whose body is a string. The bytes of a JSON body are those of
  \<open>JSON.stringify\<close>, which is left symbolic.
\<close>

definition sent_bytes :: "response \<Rightarrow> bytes option" where
  "sent_bytes r = (case body r of TextBody t \<Rightarrow> Some (utf8_encode t) | JsonBody j \<Rightarrow> None)"

section \<open>Predicates and examples of the statements\<close>

subsection \<open>The session engine\<close>

text \<open>The status of every participant is the image of its skip count.\<close>

definition status_inv :: "session \<Rightarrow> bool" where
  "status_inv s \<longleftrightarrow>
     (\<forall>c p. participants s c = Some p \<longrightarrow> activityStatus p = status_of (skipCount p))"

text \<open>A list of commands, each with its time, run from a state; failures change nothing.\<close>

fun run_all :: "(string \<rightharpoonup> terrain) \<Rightarrow> channel \<Rightarrow> (int \<times> command) list \<Rightarrow> session \<Rightarrow> session" where
  "run_all terrains ch [] s = s"
| "run_all terrains ch ((now, cmd) # rest) s =
     run_all terrains ch rest (fst (run_command (exec terrains ch now cmd) s))"

text \<open>
  Combat between Kira, controlled by the viewer Ana, and a stormtrooper, Kira first, the
  deadline at 120 seconds.
\<close>

definition kira_combat :: session where
  "kira_combat =
     init_session\<lparr>mode := Combat,
       participants := [''Kira'' \<mapsto> \<lparr>controller = ''Ana'', activityStatus = Active,
                                      skipCount = 0, lastActionAt = None\<rparr>],
       initiative := [''Kira'', ''Stormtrooper''],
       currentIndex := Some 0, deadline := Some 120\<rparr>"

text \<open>Kira alone in the initiative, two deadlines missed.\<close>

definition kira_solo :: "(int \<times> command) list" where
  "kira_solo = [(0, Join ''Ana'' ''Kira''), (0, Initiative [''Kira''] 120),
                (120, AutoAdvance), (240, AutoAdvance)]"

definition kira_idle :: session where
  "kira_idle = run_all Map.empty ChatChannel kira_solo init_session"

definition kira_afk_participant :: participant where
  "kira_afk_participant =
     \<lparr>controller = ''bot'', activityStatus = Afk, skipCount = 3, lastActionAt = None\<rparr>"

definition kira_idle_participant :: participant where
  "kira_idle_participant =
     \<lparr>controller = ''Ana'', activityStatus = Idle, skipCount = 2, lastActionAt = None\<rparr>"

text \<open>
  Two maps: the cantina, whose entrance leads to the cantina door of the streets, and
  the streets. Neither declares a default entry.
\<close>

definition cantina :: terrain where
  "cantina = \<lparr>zones = [(''bar'', [''bar-stool-l3'']), (''door'', [''entrance''])],
              obstacles = [],
              connections = [(''entrance'', ''streets.svg'', ''cantina-door'')],
              defaultEntry = None\<rparr>"

definition streets :: terrain where
  "streets = \<lparr>zones = [(''street'', [''cantina-door'', ''checkpoint''])],
              obstacles = [],
              connections = [(''cantina-door'', ''cantina.svg'', ''entrance'')],
              defaultEntry = None\<rparr>"

definition mos_eisley :: "string \<rightharpoonup> terrain" where
  "mos_eisley = [''cantina.svg'' \<mapsto> cantina, ''streets.svg'' \<mapsto> streets]"

definition kira_at_entrance :: token where
  "kira_at_entrance =
     \<lparr>tokenMap = ''cantina.svg'', tokenPosition = ''entrance'', color = None, hidden = False\<rparr>"

definition cantina_scene :: session where
  "cantina_scene = init_session\<lparr>tokens := [''Kira'' \<mapsto> kira_at_entrance]\<rparr>"

definition kira_at_bar :: token where
  "kira_at_bar =
     \<lparr>tokenMap = ''cantina.svg'', tokenPosition = ''bar-stool-l3'', color = None, hidden = False\<rparr>"

subsection \<open>Persistence\<close>







subsection \<open>The render server\<close>

text \<open>A proper segment of a path: not empty, no dot segment, without a slash.\<close>

definition proper_segment :: "string \<Rightarrow> bool" where
  "proper_segment seg \<longleftrightarrow> seg \<noteq> [] \<and> seg \<noteq> ''.'' \<and> seg \<noteq> ''..'' \<and> CHR ''/'' \<notin> set seg"

text \<open>
  A path lies strictly under a directory when it is the directory followed by one or
  more proper segments.
\<close>

definition strictly_under :: "string \<Rightarrow> string \<Rightarrow> bool" where
  "strictly_under dir p \<longleftrightarrow>
     (\<exists>segs. segs \<noteq> [] \<and> list_all proper_segment segs \<and> p = dir @ join_slash segs)"

text \<open>
  What a request may do outside the server: read a file, spawn the render of a
  whitelisted composition into a path strictly under the renders directory, and make a
  directory that is the renders directory or lies under it.
\<close>

definition safe_effect :: "effect \<Rightarrow> bool" where
  "safe_effect e =
     (case e of
        ProcSpawn args dir \<Rightarrow>
          (\<exists>cid resolved propsJson. args = render_args cid resolved propsJson
              \<and> cid \<in> set VALID_COMPOSITIONS \<and> strictly_under RENDERS_DIR resolved)
      | FsMkdir d \<Rightarrow> d = RENDERS_DIR \<or> strictly_under RENDERS_DIR d
      | FsRead p \<Rightarrow> True)"

definition no_dirs :: "string \<Rightarrow> bool" where
  "no_dirs d = False"

text \<open>A world with a game in progress, one without, and the request for the state.\<close>

definition game_on :: world where
  "game_on = \<lparr>rpgStateFile = None,
              files = [default_state_file \<mapsto> [0x7B, 0x7D]],
              dirExists = (\<lambda>d. d = ''/renders''),
              cwd = ''/app'',
              mkdirFails = None,
              outcome = Exited ''0'' [],
              serveStatic = (\<lambda>p. None)\<rparr>"

definition game_off :: world where
  "game_off = game_on\<lparr>rpgStateFile := Some ''/tmp/none.json''\<rparr>"

text \<open>A state file that holds the single byte FF, which is no UTF-8.\<close>

definition game_garbled :: world where
  "game_garbled = game_on\<lparr>files := [default_state_file \<mapsto> [0xFF]]\<rparr>"

definition get_state :: request where
  "get_state = \<lparr>reqMethod = ''GET'', reqPathname = ''/game/state'', reqBody = InvalidJSON\<rparr>"

section \<open>Properties of the .env update\<close>







text \<open>The whole output for that file: the line of B replaced, a line for C appended.\<close>

lemma updateDotEnvFile_example:
  "update_output ''A=1\<newline># note\<newline>B=2\<newline>'' [(''B'', ''x y''), (''C'', ''3'')]
       = ''A=1\<newline># note\<newline>B='' @ [CHR 0x22] @ ''x y'' @ [CHR 0x22] @ ''\<newline>\<newline>C=3\<newline>''"
  by code_simp

section \<open>Properties of the session engine\<close>

subsection \<open>The operations as the specification describes them\<close>

text \<open>
  The lemmas of this subsection read the sentences of the specification back from the
  model: they show that the model says what the specification says, and nothing about
  the engine itself.
\<close>

lemma kira_combat_built:
  "run_command (exec Map.empty ChatChannel 0 (Initiative [''Kira'', ''Stormtrooper''] 120))
     (fst (run_command (exec Map.empty ChatChannel 0 (Join ''Ana'' ''Kira'')) init_session))
   = (kira_combat, Inr Done)"
  by (simp add: run_command_def reply_done_def join_def initiative_cmd_def init_session_def kira_combat_def)

text \<open>
  \<open>join\<close>: whatever the state of the session (any skip count, any controller, the bot
  included, or no row at all) and whoever the viewer, \<open>join\<close> succeeds, and afterwards
  the character's controller is the viewer, its skip count is 0 and its status is active.
\<close>

lemma join_always_wins:
  "\<exists>s' p. join newViewer c s = Inr s' \<and> participants s' c = Some p
      \<and> controller p = newViewer \<and> skipCount p = 0 \<and> activityStatus p = Active
      \<and> run_command (exec terrains ch now (Join newViewer c)) s = (s', Inr Done)"
  by (simp add: join_def run_command_def reply_done_def)

text \<open>
  \<open>log-action\<close> in combat, with the pointer on the character \<open>cur\<close>, \<open>log-action\<close> is
  accepted if and only if the character named is \<open>cur\<close> and the viewer is the controller of
  \<open>cur\<close>; any other call is rejected as \<open>NotYourTurn\<close> naming \<open>cur\<close>, and the command
  leaves the state as it was.
\<close>

lemma log_action_combat_turn:
  assumes "mode s = Combat" and "current_character s = Some cur"
  shows "((\<exists>s'. log_action ch now viewer c txt s = Inr s')
            \<longleftrightarrow> (c = cur \<and> controller_of s cur = Some viewer))
       \<and> (\<not> (c = cur \<and> controller_of s cur = Some viewer) \<longrightarrow>
            log_action ch now viewer c txt s = Inl (NotYourTurn cur)
            \<and> run_command (exec terrains ch now (LogAction viewer c txt)) s
                = (s, Inl (NotYourTurn cur)))"
  using assms by (auto simp: log_action_def run_command_def reply_done_def)

text \<open>
  The scenario of the specification: Kira's turn, Renn is not her controller and is
  refused with the state unchanged; Ana, who is, is accepted.
\<close>

lemma log_action_combat_turn_example:
  "mode kira_combat = Combat \<and> current_character kira_combat = Some ''Kira''
   \<and> controller_of kira_combat ''Kira'' = Some ''Ana''
   \<and> run_command (exec Map.empty ChatChannel 0 (LogAction ''Renn'' ''Kira'' ''fires'')) kira_combat
       = (kira_combat, Inl (NotYourTurn ''Kira''))
   \<and> (\<exists>s'. log_action ChatChannel 0 ''Ana'' ''Kira'' ''fires'' kira_combat = Inr s')"
proof -
  have m: "mode kira_combat = Combat"
    by (simp add: kira_combat_def init_session_def)
  have c: "current_character kira_combat = Some ''Kira''"
    by (simp add: kira_combat_def init_session_def current_character_def)
  have k: "controller_of kira_combat ''Kira'' = Some ''Ana''"
    by (simp add: kira_combat_def init_session_def controller_of_def)
  from k have n: "\<not> (''Kira'' = ''Kira'' \<and> controller_of kira_combat ''Kira'' = Some ''Renn'')"
    by simp
  from log_action_combat_turn [OF m c, of ChatChannel 0 "''Renn''" "''Kira''" "''fires''" Map.empty] n
  have r: "run_command (exec Map.empty ChatChannel 0 (LogAction ''Renn'' ''Kira'' ''fires'')) kira_combat
       = (kira_combat, Inl (NotYourTurn ''Kira''))" by blast
  from log_action_combat_turn [OF m c, of ChatChannel 0 "''Ana''" "''Kira''" "''fires''" Map.empty] k
  have a: "\<exists>s'. log_action ChatChannel 0 ''Ana'' ''Kira'' ''fires'' kira_combat = Inr s'" by blast
  from m c k r a show ?thesis by blast
qed

text \<open>
  \<open>auto-advance\<close> before the deadline. In combat, before the deadline of the turn, \<open>auto-advance\<close> leaves the state
  as it was, whether it is called once or twice; with a valid pointer it reports the
  seconds that remain.
\<close>

lemma auto_advance_before_deadline:
  assumes "mode s = Combat" and "deadline s = Some d" and "now < d" and "now' < d"
  shows "fst (run_command (auto_advance now) s) = s
       \<and> fst (run_command (auto_advance now') (fst (run_command (auto_advance now) s))) = s
       \<and> (current_character s \<noteq> None \<longrightarrow>
            run_command (auto_advance now) s = (s, Inr (Remaining (d - now)))
          \<and> run_command (auto_advance now') (fst (run_command (auto_advance now) s))
              = (s, Inr (Remaining (d - now'))))"
  using assms
  by (auto simp: auto_advance_def run_command_def current_character_def split: option.splits)

text \<open>At 30 and then at 60 seconds of a turn of 120: 90 and 60 seconds remain.\<close>

lemma auto_advance_before_deadline_example:
  "mode kira_combat = Combat \<and> deadline kira_combat = Some 120 \<and> (30::int) < 120 \<and> (60::int) < 120
   \<and> current_character kira_combat \<noteq> None
   \<and> run_command (auto_advance 30) kira_combat = (kira_combat, Inr (Remaining 90))
   \<and> run_command (auto_advance 60) (fst (run_command (auto_advance 30) kira_combat))
       = (kira_combat, Inr (Remaining 60))"
proof -
  have m: "mode kira_combat = Combat"
    by (simp add: kira_combat_def init_session_def)
  have d: "deadline kira_combat = Some 120"
    by (simp add: kira_combat_def init_session_def)
  have c: "current_character kira_combat \<noteq> None"
    by (simp add: kira_combat_def init_session_def current_character_def)
  have t: "(30::int) < 120" "(60::int) < 120" by simp_all
  have e: "(120::int) - 30 = 90" "(120::int) - 60 = 60" by simp_all
  from auto_advance_before_deadline [OF m d t] c
  have "run_command (auto_advance 30) kira_combat = (kira_combat, Inr (Remaining (120 - 30)))
      \<and> run_command (auto_advance 60) (fst (run_command (auto_advance 30) kira_combat))
          = (kira_combat, Inr (Remaining (120 - 60)))" by blast
  then have "run_command (auto_advance 30) kira_combat = (kira_combat, Inr (Remaining 90))
      \<and> run_command (auto_advance 60) (fst (run_command (auto_advance 30) kira_combat))
          = (kira_combat, Inr (Remaining 60))" unfolding e .
  with m d c t show ?thesis by blast
qed

text \<open>
  \<open>switch-scene\<close> always succeeds and changes the active map only: every
  token (map, position, colour, hidden flag) and every other field of the session is
  the same before and after.
\<close>

lemma switch_scene_frame:
  "\<exists>s'. run_command (exec terrains ch now (SwitchScene m name)) s = (s', Inr Done)
      \<and> s' = s\<lparr>activeMap := Some m\<rparr>
      \<and> activeMap s' = Some m
      \<and> tokens s' = tokens s
      \<and> map_option tokenMap (tokens s' c) = map_option tokenMap (tokens s c)
      \<and> map_option tokenPosition (tokens s' c) = map_option tokenPosition (tokens s c)
      \<and> map_option color (tokens s' c) = map_option color (tokens s c)
      \<and> map_option hidden (tokens s' c) = map_option hidden (tokens s c)
      \<and> mode s' = mode s \<and> act s' = act s \<and> scene s' = scene s \<and> crawlText s' = crawlText s
      \<and> participants s' = participants s \<and> initiative s' = initiative s
      \<and> currentIndex s' = currentIndex s \<and> deadline s' = deadline s
      \<and> turnTimeout s' = turnTimeout s \<and> actionLog s' = actionLog s"
  by (simp add: switch_scene_def run_command_def reply_done_def)

subsection \<open>The skip-count state machine\<close>

lemma status_of_reset [simp]: "status_of 0 = Active"
  by (simp add: status_of_def)

lemma status_of_Afk: "status_of n = Afk \<longleftrightarrow> 3 \<le> n"
  by (auto simp: status_of_def)

lemma advance_turn_status:
  "status_inv s \<Longrightarrow> status_inv (advance_turn now i s)"
  by (auto simp: status_inv_def advance_turn_def Let_def reset_skip_def split: option.splits)

lemma accept_action_status:
  "status_inv s \<Longrightarrow> status_inv (accept_action now c txt s)"
  by (auto simp: status_inv_def accept_action_def reset_skip_def split: option.splits)

lemma skip_status:
  "status_inv s \<Longrightarrow> participants s c = Some p \<Longrightarrow>
   status_inv (s\<lparr>participants := (participants s)(c \<mapsto> skip_turn p)\<rparr>)"
  by (auto simp: status_inv_def skip_turn_def)

lemma exec_status:
  assumes "exec terrains ch now cmd s = Inr (s', r)" and "status_inv s"
  shows "status_inv s'"
proof (cases cmd)
  case (Join v c)
  with assms show ?thesis
    by (auto simp: reply_done_def join_def status_inv_def split: if_splits)
next
  case (SetMode m)
  with assms show ?thesis
    by (auto simp: reply_done_def set_mode_def status_inv_def split: if_splits)
next
  case (Initiative cs t)
  with assms show ?thesis
    by (auto simp: reply_done_def initiative_cmd_def status_inv_def split: if_splits)
next
  case NextTurn
  with assms show ?thesis
    by (auto simp: reply_done_def next_turn_def advance_turn_status split: if_splits option.splits)
next
  case EndCombat
  with assms show ?thesis
    by (auto simp: reply_done_def end_combat_def status_inv_def)
next
  case AutoAdvance
  with assms show ?thesis
    by (auto simp: auto_advance_def Let_def advance_turn_status skip_status
             split: if_splits option.splits)
next
  case (LogAction v c msg)
  with assms show ?thesis
    by (auto simp: reply_done_def log_action_def accept_action_status
             split: if_splits option.splits mode.splits)
next
  case (MoveToken c m pos col hid)
  with assms show ?thesis
    by (auto simp: reply_done_def move_token_def status_inv_def split: if_splits option.splits)
next
  case (TransferToken c m pos)
  with assms show ?thesis
    by (auto simp: reply_done_def transfer_token_def status_inv_def
             split: if_splits option.splits sum.splits)
next
  case (SwitchScene m n)
  with assms show ?thesis
    by (auto simp: reply_done_def switch_scene_def status_inv_def)
qed

lemma reachable_status: "reachable terrains s \<Longrightarrow> status_inv s"
proof (induction rule: reachable.induct)
  case reach_init
  show ?case by (simp add: status_inv_def init_session_def)
next
  case (reach_step s ch now cmd s' r)
  then show ?case using exec_status by blast
qed

lemma advance_turn_skip:
  "participants (advance_turn now i s) c = Some p' \<Longrightarrow>
   \<exists>p. participants s c = Some p \<and> (p' = p \<or> p' = reset_skip p)"
  by (auto simp: advance_turn_def Let_def split: option.splits if_splits)

lemma reset_skip_count [simp]: "skipCount (reset_skip p) = 0"
  by (simp add: reset_skip_def)

lemma exec_skip_only_increment:
  assumes "exec terrains ch now cmd s = Inr (s', r)"
    and "participants s c = Some p" and "participants s' c = Some p'"
    and "skipCount p < skipCount p'"
  shows "cmd = AutoAdvance \<and> (\<exists>d. deadline s = Some d \<and> d \<le> now)
       \<and> current_character s = Some c \<and> skipCount p' = Suc (skipCount p)
       \<and> (skipCount p' = 3 \<longrightarrow> controller p' = ''bot'')"
proof (cases cmd)
  case (Join v c0)
  with assms show ?thesis
    by (auto simp: reply_done_def join_def split: if_splits)
next
  case (SetMode m)
  with assms show ?thesis
    by (auto simp: reply_done_def set_mode_def split: if_splits)
next
  case (Initiative cs t)
  with assms show ?thesis
    by (auto simp: reply_done_def initiative_cmd_def split: if_splits)
next
  case NextTurn
  with assms obtain i where "s' = advance_turn now i s"
    by (auto simp: reply_done_def next_turn_def split: if_splits option.splits)
  with assms advance_turn_skip [of now i s c p'] show ?thesis by auto
next
  case EndCombat
  with assms show ?thesis
    by (auto simp: reply_done_def end_combat_def)
next
  case AutoAdvance
  with assms obtain i d where i: "currentIndex s = Some i" "deadline s = Some d"
      "i < length (initiative s)" "mode s = Combat"
    by (auto simp: auto_advance_def split: if_splits option.splits)
  show ?thesis
  proof (cases "now < d")
    case True
    with assms AutoAdvance i show ?thesis by (auto simp: auto_advance_def)
  next
    case False
    let ?cur = "initiative s ! i"
    let ?sk = "(case participants s ?cur of
                  Some q \<Rightarrow> s\<lparr>participants := (participants s)(?cur \<mapsto> skip_turn q)\<rparr>
                | None \<Rightarrow> s)"
    from False assms AutoAdvance i have s': "s' = advance_turn now i ?sk"
      by (auto simp: auto_advance_def Let_def)
    from advance_turn_skip [of now i ?sk c p'] assms(3) s'
    obtain q where q: "participants ?sk c = Some q" "p' = q \<or> p' = reset_skip q" by auto
    from q(2) assms(4) have pq: "p' = q" by auto
    have "c = ?cur"
    proof (rule ccontr)
      assume "c \<noteq> ?cur"
      with q(1) assms(2) have "q = p" by (auto split: option.splits)
      with pq assms(4) show False by simp
    qed
    with q(1) assms(2) have "q = skip_turn p" by auto
    with pq \<open>c = ?cur\<close> i False AutoAdvance show ?thesis
      by (auto simp: skip_turn_def current_character_def)
  qed
next
  case (LogAction v c0 msg)
  with assms show ?thesis
    by (auto simp: reply_done_def log_action_def accept_action_def
             split: if_splits option.splits mode.splits)
next
  case (MoveToken c0 m pos col hid)
  with assms show ?thesis
    by (auto simp: reply_done_def move_token_def split: if_splits option.splits)
next
  case (TransferToken c0 m pos)
  with assms show ?thesis
    by (auto simp: reply_done_def transfer_token_def
             split: if_splits option.splits sum.splits)
next
  case (SwitchScene m n)
  with assms show ?thesis
    by (auto simp: reply_done_def switch_scene_def)
qed

lemma log_action_resets:
  assumes "exec terrains ch now (LogAction viewer c txt) s = Inr (s', r)"
  shows "\<exists>p'. participants s' c = Some p' \<and> skipCount p' = 0 \<and> activityStatus p' = Active"
  using assms
  by (auto simp: reply_done_def log_action_def accept_action_def reset_skip_def controller_of_def
           split: if_splits option.splits mode.splits)

lemma reachable_run_all:
  "reachable terrains s \<Longrightarrow> reachable terrains (run_all terrains ch cmds s)"
proof (induction cmds arbitrary: s)
  case Nil
  then show ?case by simp
next
  case (Cons a cmds)
  obtain now cmd where a: "a = (now, cmd)" by (cases a)
  have "reachable terrains (fst (run_command (exec terrains ch now cmd) s))"
  proof (cases "exec terrains ch now cmd s")
    case (Inl e)
    with Cons.prems show ?thesis by (simp add: run_command_def)
  next
    case (Inr sr)
    obtain s' r where "sr = (s', r)" by (cases sr)
    with Inr Cons.prems reach_step [of terrains s ch now cmd s' r] show ?thesis
      by (simp add: run_command_def)
  qed
  with Cons.IH a show ?case by simp
qed

lemma kira_idle_eq:
  "kira_idle = init_session\<lparr>mode := Combat,
       participants := [''Kira'' \<mapsto> \<lparr>controller = ''Ana'', activityStatus = Idle,
                                      skipCount = 2, lastActionAt = None\<rparr>],
       initiative := [''Kira''],
       currentIndex := Some 0, deadline := Some 360\<rparr>"
  by (simp add: kira_idle_def kira_solo_def run_command_def reply_done_def join_def
        initiative_cmd_def init_session_def auto_advance_def advance_turn_def
        acted_this_turn_def skip_turn_def status_of_def Let_def numeral_2_eq_2)

text \<open>
  Claim C3. In every reachable state the status of each participant is the image of its
  skip count (0 and 1 active, 2 idle, 3 and more afk), so no participant is afk with a
  skip count below 3. A command that raises a skip count is \<open>auto-advance\<close> at or after
  the deadline, for the character of the turn, by exactly one, and the count that
  reaches 3 comes with the controller \<open>bot\<close>. An accepted \<open>log-action\<close> leaves the
  character with skip count 0 and status active.
\<close>

theorem skip_count_state_machine:
  assumes "reachable terrains s"
  shows "(\<forall>c p. participants s c = Some p \<longrightarrow>
            activityStatus p = status_of (skipCount p)
            \<and> (activityStatus p = Afk \<longrightarrow> 3 \<le> skipCount p))
       \<and> status_of 0 = Active \<and> status_of 1 = Active \<and> status_of 2 = Idle
       \<and> (\<forall>n. 3 \<le> n \<longrightarrow> status_of n = Afk)
       \<and> (\<forall>ch now cmd s' r c p p'.
            exec terrains ch now cmd s = Inr (s', r) \<and> participants s c = Some p
            \<and> participants s' c = Some p' \<and> skipCount p < skipCount p' \<longrightarrow>
              cmd = AutoAdvance \<and> (\<exists>d. deadline s = Some d \<and> d \<le> now)
              \<and> current_character s = Some c \<and> skipCount p' = Suc (skipCount p)
              \<and> (skipCount p' = 3 \<longrightarrow> controller p' = ''bot''))
       \<and> (\<forall>ch now viewer c txt s' r.
            exec terrains ch now (LogAction viewer c txt) s = Inr (s', r) \<longrightarrow>
              (\<exists>p'. participants s' c = Some p' \<and> skipCount p' = 0
                     \<and> activityStatus p' = Active))"
proof -
  from assms have inv: "status_inv s" by (rule reachable_status)
  have 1: "\<forall>c p. participants s c = Some p \<longrightarrow>
            activityStatus p = status_of (skipCount p)
            \<and> (activityStatus p = Afk \<longrightarrow> 3 \<le> skipCount p)"
    using inv by (auto simp: status_inv_def status_of_Afk)
  have 2: "status_of 0 = Active \<and> status_of 1 = Active \<and> status_of 2 = Idle
       \<and> (\<forall>n. 3 \<le> n \<longrightarrow> status_of n = Afk)"
    by (simp add: status_of_def)
  have 3: "\<forall>ch now cmd s' r c p p'.
            exec terrains ch now cmd s = Inr (s', r) \<and> participants s c = Some p
            \<and> participants s' c = Some p' \<and> skipCount p < skipCount p' \<longrightarrow>
              cmd = AutoAdvance \<and> (\<exists>d. deadline s = Some d \<and> d \<le> now)
              \<and> current_character s = Some c \<and> skipCount p' = Suc (skipCount p)
              \<and> (skipCount p' = 3 \<longrightarrow> controller p' = ''bot'')"
    using exec_skip_only_increment by blast
  have 4: "\<forall>ch now viewer c txt s' r.
            exec terrains ch now (LogAction viewer c txt) s = Inr (s', r) \<longrightarrow>
              (\<exists>p'. participants s' c = Some p' \<and> skipCount p' = 0
                     \<and> activityStatus p' = Active)"
    using log_action_resets by blast
  from 1 2 3 4 show ?thesis by blast
qed

text \<open>
  Kira with two turns missed is reachable and idle; the third missed deadline makes her
  afk with skip count 3 and hands her to the bot.
\<close>

theorem skip_count_state_machine_witness:
  "reachable Map.empty kira_idle
   \<and> participants kira_idle ''Kira'' = Some kira_idle_participant
   \<and> activityStatus kira_idle_participant = status_of (skipCount kira_idle_participant)
   \<and> (\<exists>s'. exec Map.empty ChatChannel 360 AutoAdvance kira_idle = Inr (s', Advanced ''Kira'')
           \<and> participants s' ''Kira'' = Some kira_afk_participant)
   \<and> skipCount kira_idle_participant < skipCount kira_afk_participant
   \<and> skipCount kira_afk_participant = 3
   \<and> controller kira_afk_participant = ''bot''
   \<and> current_character kira_idle = Some ''Kira''"
proof -
  have r: "reachable Map.empty kira_idle"
    unfolding kira_idle_def by (rule reachable_run_all) (rule reach_init)
  have p: "participants kira_idle ''Kira'' = Some kira_idle_participant"
    by (simp add: kira_idle_eq kira_idle_participant_def)
  obtain s' where s': "exec Map.empty ChatChannel 360 AutoAdvance kira_idle = Inr (s', Advanced ''Kira'')"
      "participants s' ''Kira'' = Some kira_afk_participant"
    by (simp add: kira_idle_eq init_session_def auto_advance_def advance_turn_def
        acted_this_turn_def skip_turn_def status_of_def kira_afk_participant_def Let_def)
  have lt: "skipCount kira_idle_participant < skipCount kira_afk_participant"
    by (simp add: kira_idle_participant_def kira_afk_participant_def)
  have three: "skipCount kira_afk_participant = 3"
    by (simp add: kira_afk_participant_def)
  note t = skip_count_state_machine [OF r]
  from t p have st: "activityStatus kira_idle_participant = status_of (skipCount kira_idle_participant)"
    by blast
  from t s' p lt
  have "current_character kira_idle = Some ''Kira''
        \<and> (skipCount kira_afk_participant = 3 \<longrightarrow> controller kira_afk_participant = ''bot'')"
    by blast
  with three have b: "controller kira_afk_participant = ''bot''"
     and c: "current_character kira_idle = Some ''Kira''" by blast+
  from r p st s' lt three b c show ?thesis by blast
qed

subsection \<open>Transfers between maps\<close>

lemma find_connection_None:
  "find_connection terrains tk toMap = None \<longleftrightarrow>
     (\<forall>src en. terrains (tokenMap tk) = Some src \<longrightarrow>
        (tokenPosition tk, toMap, en) \<notin> set (connections src))"
  by (auto simp: find_connection_def find_None_iff split: option.splits)

lemma find_connection_Some:
  "find_connection terrains tk toMap = Some (ex, om, en) \<Longrightarrow>
     ex = tokenPosition tk \<and> om = toMap \<and>
     (\<exists>src. terrains (tokenMap tk) = Some src \<and> (ex, om, en) \<in> set (connections src))"
  by (auto simp: find_connection_def find_Some_iff split: option.splits) (metis nth_mem)

text \<open>
  Claim C6. For a character with a token and a destination with terrain, a transfer
  without a position lands on the entry position of a connection of the source map whose
  exit is the character's position and whose other map is the destination, when there
  is one; when there is none it lands on the default entry of the destination, and
  when none is declared it fails with \<open>NoConnection\<close> and changes nothing.
\<close>

theorem transfer_token_resolves:
  assumes "tokens s c = Some tk" and "terrains toMap = Some dst"
  defines "landed \<equiv> \<lambda>pos. s\<lparr>tokens := (tokens s)(c \<mapsto> tk\<lparr>tokenMap := toMap, tokenPosition := pos\<rparr>)\<rparr>"
  shows "(\<forall>src. terrains (tokenMap tk) = Some src
                \<and> (\<exists>en. (tokenPosition tk, toMap, en) \<in> set (connections src)) \<longrightarrow>
            (\<exists>en. (tokenPosition tk, toMap, en) \<in> set (connections src)
                 \<and> transfer_token terrains c toMap None s = Inr (landed en)))
       \<and> ((\<forall>src en. terrains (tokenMap tk) = Some src \<longrightarrow>
               (tokenPosition tk, toMap, en) \<notin> set (connections src)) \<longrightarrow>
            (\<forall>d. defaultEntry dst = Some d \<longrightarrow>
                 transfer_token terrains c toMap None s = Inr (landed d))
            \<and> (defaultEntry dst = None \<longrightarrow>
                 transfer_token terrains c toMap None s = Inl NoConnection
                 \<and> run_command (exec terrains ch now (TransferToken c toMap None)) s
                     = (s, Inl NoConnection)))"
proof -
  have found: "\<forall>src. terrains (tokenMap tk) = Some src
                \<and> (\<exists>en. (tokenPosition tk, toMap, en) \<in> set (connections src)) \<longrightarrow>
            (\<exists>en. (tokenPosition tk, toMap, en) \<in> set (connections src)
                 \<and> transfer_token terrains c toMap None s = Inr (landed en))"
  proof (intro allI impI)
    fix src
    assume a: "terrains (tokenMap tk) = Some src
                \<and> (\<exists>en. (tokenPosition tk, toMap, en) \<in> set (connections src))"
    then have "find_connection terrains tk toMap \<noteq> None"
      by (simp add: find_connection_None)
    then obtain ex om en where f: "find_connection terrains tk toMap = Some (ex, om, en)"
      by (cases "find_connection terrains tk toMap") auto
    from find_connection_Some [OF f] a
    have e: "(tokenPosition tk, toMap, en) \<in> set (connections src)" by auto
    from f assms(1,2) have "transfer_token terrains c toMap None s = Inr (landed en)"
      by (simp add: transfer_token_def resolve_landing_def landed_def)
    with e show "\<exists>en. (tokenPosition tk, toMap, en) \<in> set (connections src)
                 \<and> transfer_token terrains c toMap None s = Inr (landed en)" by blast
  qed
  have missing: "(\<forall>src en. terrains (tokenMap tk) = Some src \<longrightarrow>
               (tokenPosition tk, toMap, en) \<notin> set (connections src)) \<longrightarrow>
            (\<forall>d. defaultEntry dst = Some d \<longrightarrow>
                 transfer_token terrains c toMap None s = Inr (landed d))
            \<and> (defaultEntry dst = None \<longrightarrow>
                 transfer_token terrains c toMap None s = Inl NoConnection
                 \<and> run_command (exec terrains ch now (TransferToken c toMap None)) s
                     = (s, Inl NoConnection))"
  proof
    assume "\<forall>src en. terrains (tokenMap tk) = Some src \<longrightarrow>
               (tokenPosition tk, toMap, en) \<notin> set (connections src)"
    then have n: "find_connection terrains tk toMap = None"
      by (simp add: find_connection_None)
    with assms(1,2) show "(\<forall>d. defaultEntry dst = Some d \<longrightarrow>
                 transfer_token terrains c toMap None s = Inr (landed d))
            \<and> (defaultEntry dst = None \<longrightarrow>
                 transfer_token terrains c toMap None s = Inl NoConnection
                 \<and> run_command (exec terrains ch now (TransferToken c toMap None)) s
                     = (s, Inl NoConnection))"
      by (simp add: transfer_token_def resolve_landing_def landed_def run_command_def
            reply_done_def)
  qed
  from found missing show ?thesis by blast
qed

text \<open>From the entrance of the cantina to the streets: Kira lands on the cantina door.\<close>

theorem transfer_token_resolves_witness:
  "tokens cantina_scene ''Kira'' = Some kira_at_entrance
   \<and> mos_eisley ''streets.svg'' = Some streets
   \<and> mos_eisley (tokenMap kira_at_entrance) = Some cantina
   \<and> (tokenPosition kira_at_entrance, ''streets.svg'', ''cantina-door'') \<in> set (connections cantina)
   \<and> transfer_token mos_eisley ''Kira'' ''streets.svg'' None cantina_scene
       = Inr (cantina_scene\<lparr>tokens := (tokens cantina_scene)(''Kira'' \<mapsto>
                kira_at_entrance\<lparr>tokenMap := ''streets.svg'', tokenPosition := ''cantina-door''\<rparr>)\<rparr>)"
proof -
  have t: "tokens cantina_scene ''Kira'' = Some kira_at_entrance"
    by (simp add: cantina_scene_def)
  have d: "mos_eisley ''streets.svg'' = Some streets"
    by (simp add: mos_eisley_def)
  have m: "mos_eisley (tokenMap kira_at_entrance) = Some cantina"
    by (simp add: mos_eisley_def kira_at_entrance_def)
  have e: "(tokenPosition kira_at_entrance, ''streets.svg'', ''cantina-door'') \<in> set (connections cantina)"
    by (simp add: kira_at_entrance_def cantina_def)
  have only: "\<forall>en. (tokenPosition kira_at_entrance, ''streets.svg'', en) \<in> set (connections cantina)
                \<longrightarrow> en = ''cantina-door''"
    by (simp add: kira_at_entrance_def cantina_def)
  from transfer_token_resolves [where s = cantina_scene and c = "''Kira''"
        and tk = kira_at_entrance and terrains = mos_eisley and toMap = "''streets.svg''"
        and dst = streets, OF t d] m e
  obtain en where "(tokenPosition kira_at_entrance, ''streets.svg'', en) \<in> set (connections cantina)"
    "transfer_token mos_eisley ''Kira'' ''streets.svg'' None cantina_scene
       = Inr (cantina_scene\<lparr>tokens := (tokens cantina_scene)(''Kira'' \<mapsto>
                kira_at_entrance\<lparr>tokenMap := ''streets.svg'', tokenPosition := en\<rparr>)\<rparr>)"
    by blast
  with only have "transfer_token mos_eisley ''Kira'' ''streets.svg'' None cantina_scene
       = Inr (cantina_scene\<lparr>tokens := (tokens cantina_scene)(''Kira'' \<mapsto>
                kira_at_entrance\<lparr>tokenMap := ''streets.svg'', tokenPosition := ''cantina-door''\<rparr>)\<rparr>)"
    by blast
  with t d m e show ?thesis by blast
qed

text \<open>
  From the bar stool there is no connection to the streets, and the streets declare no
  default entry: the transfer fails.
\<close>

lemma transfer_from_bar_stool:
  "transfer_token mos_eisley ''Kira'' ''streets.svg'' None
     (init_session\<lparr>tokens := [''Kira'' \<mapsto> kira_at_bar]\<rparr>) = Inl NoConnection"
  by (simp add: transfer_token_def resolve_landing_def find_connection_def mos_eisley_def
        kira_at_bar_def cantina_def streets_def)

section \<open>Properties of the atomic write\<close>





















section \<open>Properties of the render server\<close>

subsection \<open>UTF-8\<close>

lemma mod_offset: "r < m \<Longrightarrow> (k * m + r) mod m = (r::nat)"
  by simp

lemma lead1: "b \<le> 127 \<Longrightarrow> utf8_dec 0 cp lo hi (b # bs) = b # utf8_dec 0 0 128 191 bs"
  by simp

lemma lead2:
  "194 \<le> b \<Longrightarrow> b \<le> 223 \<Longrightarrow>
   utf8_dec 0 cp lo hi (b # bs) = utf8_dec (Suc 0) (b mod 32) 128 191 bs"
  by simp

lemma lead3:
  "224 \<le> b \<Longrightarrow> b \<le> 239 \<Longrightarrow>
   utf8_dec 0 cp lo hi (b # bs) =
     utf8_dec (Suc (Suc 0)) (b mod 16) (if b = 224 then 160 else 128)
       (if b = 237 then 159 else 191) bs"
  by (simp add: numeral_2_eq_2)

lemma lead4:
  "240 \<le> b \<Longrightarrow> b \<le> 244 \<Longrightarrow>
   utf8_dec 0 cp lo hi (b # bs) =
     utf8_dec (Suc (Suc (Suc 0))) (b mod 8) (if b = 240 then 144 else 128)
       (if b = 244 then 143 else 191) bs"
  by (simp add: numeral_3_eq_3)

lemma cont_last:
  "lo \<le> b \<Longrightarrow> b \<le> hi \<Longrightarrow>
   utf8_dec (Suc 0) cp lo hi (b # bs) = (cp * 64 + b mod 64) # utf8_dec 0 0 128 191 bs"
  by simp

lemma cont_more:
  "lo \<le> b \<Longrightarrow> b \<le> hi \<Longrightarrow>
   utf8_dec (Suc (Suc k)) cp lo hi (b # bs) = utf8_dec (Suc k) (cp * 64 + b mod 64) 128 191 bs"
  by simp

lemma low6: "r < 64 \<Longrightarrow> (128 + r) mod 64 = (r::nat)"
  using mod_offset [of r 64 2] by simp

lemma dec_two:
  assumes "2 \<le> q" "q < 32" "r < 64"
  shows "utf8_dec 0 0 128 191 ([192 + q, 128 + r] @ rest) = (q * 64 + r) # utf8_dec 0 0 128 191 rest"
proof -
  have m: "(192 + q) mod 32 = q" using mod_offset [of q 32 6] assms by simp
  show ?thesis using assms by (simp add: lead2 cont_last m low6 del: utf8_dec.simps)
qed

lemma dec_three:
  assumes "a < 16" "b < 64" "c < 64" "a = 0 \<longrightarrow> 32 \<le> b" "a = 13 \<longrightarrow> b < 32"
  shows "utf8_dec 0 0 128 191 ([224 + a, 128 + b, 128 + c] @ rest)
         = (a * 4096 + b * 64 + c) # utf8_dec 0 0 128 191 rest"
proof -
  have m: "(224 + a) mod 16 = a" using mod_offset [of a 16 14] assms by simp
  have lo: "(if 224 + a = 224 then 160 else 128) \<le> 128 + b" using assms by auto
  have hi: "128 + b \<le> (if 224 + a = 237 then 159 else 191)" using assms by auto
  have s1: "utf8_dec 0 0 128 191 ((224 + a) # (128 + b) # (128 + c) # rest)
        = utf8_dec (Suc (Suc 0)) a (if 224 + a = 224 then 160 else 128)
            (if 224 + a = 237 then 159 else 191) ((128 + b) # (128 + c) # rest)"
    using assms(1) by (simp only: lead3 m)
  have s2: "utf8_dec (Suc (Suc 0)) a (if 224 + a = 224 then 160 else 128)
            (if 224 + a = 237 then 159 else 191) ((128 + b) # (128 + c) # rest)
        = utf8_dec (Suc 0) (a * 64 + b) 128 191 ((128 + c) # rest)"
    using cont_more [OF lo hi] assms(2) by (simp only: low6)
  have s3: "utf8_dec (Suc 0) (a * 64 + b) 128 191 ((128 + c) # rest)
        = ((a * 64 + b) * 64 + c) # utf8_dec 0 0 128 191 rest"
    using cont_last [of 128 "128 + c" 191] assms(3) by (simp add: low6 del: utf8_dec.simps)
  have "(a * 64 + b) * 64 + c = a * 4096 + b * 64 + c" by simp
  with s1 s2 s3 show ?thesis by simp
qed

lemma dec_four:
  assumes "1 \<le> a \<or> 16 \<le> b" "a < 4 \<or> (a = 4 \<and> b < 16)" "b < 64" "c < 64" "d < 64"
  shows "utf8_dec 0 0 128 191 ([240 + a, 128 + b, 128 + c, 128 + d] @ rest)
         = (a * 262144 + b * 4096 + c * 64 + d) # utf8_dec 0 0 128 191 rest"
proof -
  from assms(2) have a: "a < 8" "a \<le> 4" by auto
  have m: "(240 + a) mod 8 = a" using mod_offset [of a 8 30] a by simp
  have lo: "(if 240 + a = 240 then 144 else 128) \<le> 128 + b" using assms by auto
  have hi: "128 + b \<le> (if 240 + a = 244 then 143 else 191)" using assms by auto
  have s1: "utf8_dec 0 0 128 191 ((240 + a) # (128 + b) # (128 + c) # (128 + d) # rest)
        = utf8_dec (Suc (Suc (Suc 0))) a (if 240 + a = 240 then 144 else 128)
            (if 240 + a = 244 then 143 else 191) ((128 + b) # (128 + c) # (128 + d) # rest)"
    using a by (simp only: lead4 m)
  have s2: "utf8_dec (Suc (Suc (Suc 0))) a (if 240 + a = 240 then 144 else 128)
            (if 240 + a = 244 then 143 else 191) ((128 + b) # (128 + c) # (128 + d) # rest)
        = utf8_dec (Suc (Suc 0)) (a * 64 + b) 128 191 ((128 + c) # (128 + d) # rest)"
    using cont_more [OF lo hi] assms(3) by (simp only: low6)
  have s3: "utf8_dec (Suc (Suc 0)) (a * 64 + b) 128 191 ((128 + c) # (128 + d) # rest)
        = utf8_dec (Suc 0) ((a * 64 + b) * 64 + c) 128 191 ((128 + d) # rest)"
    using cont_more [of 128 "128 + c" 191] assms(4) by (simp add: low6 del: utf8_dec.simps)
  have s4: "utf8_dec (Suc 0) ((a * 64 + b) * 64 + c) 128 191 ((128 + d) # rest)
        = (((a * 64 + b) * 64 + c) * 64 + d) # utf8_dec 0 0 128 191 rest"
    using cont_last [of 128 "128 + d" 191] assms(5) by (simp add: low6 del: utf8_dec.simps)
  have "((a * 64 + b) * 64 + c) * 64 + d = a * 262144 + b * 4096 + c * 64 + d" by simp
  with s1 s2 s3 s4 show ?thesis by simp
qed

lemma digits2: "(n::nat) = (n div 64) * 64 + n mod 64"
  by simp

lemma scale64: "q = x * 64 + y \<Longrightarrow> x * 4096 + y * 64 = q * (64::nat)"
  by simp

lemma digits3: "(n::nat) = (n div 4096) * 4096 + (n div 64 mod 64) * 64 + n mod 64"
proof -
  define q where "q = n div 64"
  have a: "n div 4096 = q div 64" by (simp add: q_def div_mult2_eq)
  have "q = q div 64 * 64 + q mod 64" by simp
  then have "(q div 64) * 4096 + (q mod 64) * 64 = q * 64" by (rule scale64)
  moreover have "n = q * 64 + n mod 64" by (simp add: q_def)
  ultimately show ?thesis unfolding a q_def [symmetric] by simp
qed

lemma digits4:
  "(n::nat) = (n div 262144) * 262144 + (n div 4096 mod 64) * 4096 + (n div 64 mod 64) * 64 + n mod 64"
proof -
  define q where "q = n div 64"
  have a: "n div 4096 = q div 64" "n div 262144 = q div 4096"
    by (simp_all add: q_def div_mult2_eq)
  have "q = (q div 4096) * 4096 + (q div 64 mod 64) * 64 + q mod 64" by (rule digits3)
  then have "q * 64 = (q div 4096) * 262144 + (q div 64 mod 64) * 4096 + (q mod 64) * 64"
    by simp
  moreover have "n = q * 64 + n mod 64" by (simp add: q_def)
  ultimately show ?thesis unfolding a q_def [symmetric] by simp
qed

lemma encode_decode_cp:
  assumes "scalar_value cp"
  shows "utf8_dec 0 0 128 191 (utf8_encode_cp cp @ rest) = cp # utf8_dec 0 0 128 191 rest"
proof -
  consider "cp < 128" | "128 \<le> cp" "cp < 2048" | "2048 \<le> cp" "cp < 65536" | "65536 \<le> cp"
    by linarith
  then show ?thesis
  proof cases
    case 1
    then show ?thesis by (simp add: utf8_encode_cp_def)
  next
    case 2
    define q r where "q = cp div 64" and "r = cp mod 64"
    have cp: "cp = q * 64 + r" by (simp add: q_def r_def)
    have r: "r < 64" by (simp add: r_def)
    from 2 have q: "2 \<le> q" "q < 32" unfolding cp using r by linarith+
    have enc: "utf8_encode_cp cp = [192 + q, 128 + r]"
      using 2 by (simp add: utf8_encode_cp_def q_def r_def)
    show ?thesis unfolding enc using dec_two [OF q r] cp by simp
  next
    case 3
    define a b c where "a = cp div 4096" and "b = cp div 64 mod 64" and "c = cp mod 64"
    have cp: "cp = a * 4096 + b * 64 + c" unfolding a_def b_def c_def by (rule digits3)
    have bc: "b < 64" "c < 64" by (simp_all add: b_def c_def)
    from 3 have a: "a < 16" unfolding cp using bc by linarith
    from assms 3 have ns: "cp < 55296 \<or> 57343 < cp" by (auto simp: scalar_value_def)
    have lo: "a = 0 \<longrightarrow> 32 \<le> b" using 3 bc unfolding cp by auto
    have hi: "a = 13 \<longrightarrow> b < 32" using ns bc unfolding cp by auto
    have enc: "utf8_encode_cp cp = [224 + a, 128 + b, 128 + c]"
      using 3 ns by (auto simp: utf8_encode_cp_def a_def b_def c_def)
    show ?thesis unfolding enc using dec_three [OF a bc lo hi] cp by simp
  next
    case 4
    define a b c d where "a = cp div 262144" and "b = cp div 4096 mod 64"
      and "c = cp div 64 mod 64" and "d = cp mod 64"
    have cp: "cp = a * 262144 + b * 4096 + c * 64 + d"
      unfolding a_def b_def c_def d_def by (rule digits4)
    have bcd: "b < 64" "c < 64" "d < 64" by (simp_all add: b_def c_def d_def)
    from assms have top: "cp < 1114112" by (simp add: scalar_value_def)
    have lo: "1 \<le> a \<or> 16 \<le> b" using 4 bcd unfolding cp by linarith
    have hi: "a < 4 \<or> (a = 4 \<and> b < 16)" using top bcd unfolding cp by linarith
    have enc: "utf8_encode_cp cp = [240 + a, 128 + b, 128 + c, 128 + d]"
      using 4 by (auto simp: utf8_encode_cp_def a_def b_def c_def d_def)
    show ?thesis unfolding enc using dec_four [OF lo hi bcd] cp by simp
  qed
qed

lemma utf8_roundtrip:
  "list_all scalar_value cps \<Longrightarrow> utf8_decode (utf8_encode cps) = cps"
  unfolding utf8_decode_def utf8_encode_def
  by (induction cps) (simp_all add: encode_decode_cp del: utf8_dec.simps(3,4))

lemma well_formed_roundtrip:
  "well_formed_utf8 bs \<Longrightarrow> utf8_encode (utf8_decode bs) = bs"
  by (auto simp: well_formed_utf8_def utf8_roundtrip)

subsection \<open>The game state endpoint\<close>

text \<open>
  The state file holds the byte FF: the request is answered with status 200, and the
  bytes sent are EF BF BD, the encoding of U+FFFD, not the byte of the file.
\<close>

theorem game_state_bytes_counterexample:
  "reqMethod get_state = ''GET'' \<and> reqPathname get_state = ''/game/state''
   \<and> files game_garbled (statePath game_garbled) = Some [0xFF]
   \<and> status (fst (handleRequest game_garbled get_state)) = 200
   \<and> sent_bytes (fst (handleRequest game_garbled get_state)) = Some [0xEF, 0xBF, 0xBD]
   \<and> sent_bytes (fst (handleRequest game_garbled get_state))
       \<noteq> files game_garbled (statePath game_garbled)"
proof -
  have f: "files game_garbled (statePath game_garbled) = Some [0xFF]"
    by (simp add: game_garbled_def game_on_def statePath_def)
  have d: "utf8_decode [0xFF] = [0xFFFD]" by (simp add: utf8_decode_def)
  have e: "utf8_encode [0xFFFD] = [0xEF, 0xBF, 0xBD]"
    by (simp add: utf8_encode_def utf8_encode_cp_def)
  have r: "fst (handleRequest game_garbled get_state)
      = \<lparr>status = 200, contentType = ''application/json'', body = TextBody [0xFFFD]\<rparr>"
    using f d by (simp add: handleRequest_def get_state_def)
  show ?thesis
    unfolding r f by (simp add: sent_bytes_def e get_state_def)
qed

text \<open>
  Claim C9, amended. A \<open>GET\<close> request for \<open>/game/state\<close> whose state file can be read
  is answered with status 200 and the content of the file decoded as UTF-8, not parsed,
  which is sent encoded as UTF-8: the bytes sent are the bytes of the file whenever the
  file is well-formed UTF-8. When the file cannot be read the answer is status 404 with
  the JSON body \<open>{"error": "No active game state"}\<close>. In both cases the only effect is
  the read of that file.
\<close>

theorem game_state_endpoint:
  assumes "reqMethod req = ''GET''" and "reqPathname req = ''/game/state''"
  shows "(\<forall>bs. files w (statePath w) = Some bs \<longrightarrow>
            handleRequest w req =
              (\<lparr>status = 200, contentType = ''application/json'',
                body = TextBody (utf8_decode bs)\<rparr>,
               [FsRead (statePath w)])
            \<and> sent_bytes (fst (handleRequest w req)) = Some (utf8_encode (utf8_decode bs))
            \<and> (well_formed_utf8 bs \<longrightarrow> sent_bytes (fst (handleRequest w req)) = Some bs))
       \<and> (files w (statePath w) = None \<longrightarrow>
            handleRequest w req =
              (sendJson 404 (JObj [(''error'', JStr ''No active game state'')]),
               [FsRead (statePath w)]))
       \<and> snd (handleRequest w req) = [FsRead (statePath w)]"
proof -
  have ok: "\<forall>bs. files w (statePath w) = Some bs \<longrightarrow>
            handleRequest w req =
              (\<lparr>status = 200, contentType = ''application/json'',
                body = TextBody (utf8_decode bs)\<rparr>,
               [FsRead (statePath w)])
            \<and> sent_bytes (fst (handleRequest w req)) = Some (utf8_encode (utf8_decode bs))
            \<and> (well_formed_utf8 bs \<longrightarrow> sent_bytes (fst (handleRequest w req)) = Some bs)"
    using assms by (simp add: handleRequest_def sent_bytes_def well_formed_roundtrip)
  have missing: "files w (statePath w) = None \<longrightarrow>
            handleRequest w req =
              (sendJson 404 (JObj [(''error'', JStr ''No active game state'')]),
               [FsRead (statePath w)])"
    using assms by (simp add: handleRequest_def)
  have eff: "snd (handleRequest w req) = [FsRead (statePath w)]"
    using assms by (simp add: handleRequest_def split: option.splits)
  from ok missing eff show ?thesis by blast
qed

text \<open>
  With the default state file holding \<open>{}\<close>, which is well-formed, and with a state
  file that is missing.
\<close>

theorem game_state_endpoint_witness:
  "reqMethod get_state = ''GET'' \<and> reqPathname get_state = ''/game/state''
   \<and> files game_on (statePath game_on) = Some [0x7B, 0x7D]
   \<and> well_formed_utf8 [0x7B, 0x7D]
   \<and> status (fst (handleRequest game_on get_state)) = 200
   \<and> sent_bytes (fst (handleRequest game_on get_state)) = Some [0x7B, 0x7D]
   \<and> files game_off (statePath game_off) = None
   \<and> handleRequest game_off get_state =
        (sendJson 404 (JObj [(''error'', JStr ''No active game state'')]),
         [FsRead (statePath game_off)])"
proof -
  have m: "reqMethod get_state = ''GET''" and p: "reqPathname get_state = ''/game/state''"
    by (simp_all add: get_state_def)
  have on: "files game_on (statePath game_on) = Some [0x7B, 0x7D]"
    by (simp add: game_on_def statePath_def)
  have off: "files game_off (statePath game_off) = None"
    by (simp add: game_off_def game_on_def statePath_def default_state_file_def)
  have "list_all scalar_value [0x7B, 0x7D] \<and> [0x7B, 0x7D] = utf8_encode [0x7B, 0x7D]"
    by (simp add: scalar_value_def utf8_encode_def utf8_encode_cp_def)
  then have wf: "well_formed_utf8 [0x7B, 0x7D]"
    unfolding well_formed_utf8_def by blast
  note t = game_state_endpoint [OF m p]
  from t [of game_on] on wf
  have 1: "sent_bytes (fst (handleRequest game_on get_state)) = Some [0x7B, 0x7D]" by blast
  from t [of game_on] on
  have "handleRequest game_on get_state =
              (\<lparr>status = 200, contentType = ''application/json'',
                body = TextBody (utf8_decode [0x7B, 0x7D])\<rparr>,
               [FsRead (statePath game_on)])" by blast
  then have 2: "status (fst (handleRequest game_on get_state)) = 200" by simp
  from t [of game_off] off
  have 3: "handleRequest game_off get_state =
        (sendJson 404 (JObj [(''error'', JStr ''No active game state'')]),
         [FsRead (statePath game_off)])" by blast
  from m p on wf 1 2 off 3 show ?thesis by blast
qed


subsection \<open>Paths and renders\<close>

lemma split_on_no_sep: "\<forall>seg \<in> set (split_on sep s). sep \<notin> set seg"
  by (induction s) (auto split: list.splits)

lemma normalize_segments_proper:
  "list_all proper_segment acc \<Longrightarrow> \<forall>seg \<in> set segs. CHR ''/'' \<notin> set seg \<Longrightarrow>
   list_all proper_segment (normalize_segments segs acc)"
proof (induction segs arbitrary: acc)
  case Nil
  then show ?case by (simp add: list_all_iff)
next
  case (Cons seg segs)
  from Cons.prems(2) have rest: "\<forall>seg \<in> set segs. CHR ''/'' \<notin> set seg" by simp
  consider "seg = [] \<or> seg = ''.''" | "seg = ''..''" | "seg \<noteq> []" "seg \<noteq> ''.''" "seg \<noteq> ''..''"
    by blast
  then show ?case
  proof cases
    case 1
    with Cons.IH [OF Cons.prems(1) rest] show ?thesis by auto
  next
    case 2
    have "list_all proper_segment (tl acc)" using Cons.prems(1) by (cases acc) auto
    from Cons.IH [OF this rest] 2 show ?thesis by simp
  next
    case 3
    with Cons.prems(2) have "proper_segment seg" by (simp add: proper_segment_def)
    with Cons.prems(1) have "list_all proper_segment (seg # acc)" by simp
    from Cons.IH [OF this rest] 3 show ?thesis by simp
  qed
qed

lemma pathResolve_shape:
  "pathResolve wd p = ''/'' \<or>
   (\<exists>segs. segs \<noteq> [] \<and> list_all proper_segment segs \<and> pathResolve wd p = join_slash segs)"
proof -
  let ?full = "if starts_with ''/'' p then p else wd @ ''/'' @ p"
  let ?segs = "normalize_segments (split_on (CHR ''/'') ?full) []"
  have "list_all proper_segment ?segs"
    by (rule normalize_segments_proper) (simp_all add: split_on_no_sep)
  then show ?thesis by (auto simp: pathResolve_def Let_def)
qed


lemma join_slash_Cons: "join_slash (seg # segs) = CHR ''/'' # seg @ join_slash segs"
  by (simp add: join_slash_def)

lemma join_slash_head: "segs \<noteq> [] \<Longrightarrow> hd (join_slash segs) = CHR ''/''"
  by (cases segs) (simp_all add: join_slash_Cons)

lemma join_slash_Nil_iff: "join_slash segs = [] \<longleftrightarrow> segs = []"
  by (cases segs) (simp_all add: join_slash_def)

text \<open>A segment without a slash in front of a joined rest: where the first slash is.\<close>

lemma prefix_segment:
  assumes "CHR ''/'' \<notin> set seg" and "CHR ''/'' \<notin> set pre"
    and "take (Suc (length pre)) (seg @ rest) = pre @ ''/''"
    and "rest = [] \<or> hd rest = CHR ''/''"
  shows "seg = pre \<and> rest \<noteq> []"
proof -
  from assms(3) have len: "Suc (length pre) \<le> length (seg @ rest)"
    by (metis length_append_singleton length_take min.cobounded1 min_def nat_le_linear take_all)
  from assms(3) have at: "(seg @ rest) ! length pre = CHR ''/''"
    by (metis len lessI less_le_trans nth_append_length nth_take)
  from assms(3) have pre: "take (length pre) (seg @ rest) = pre"
    by (metis append_eq_conv_conj butlast_snoc butlast_take diff_Suc_1 len)
  have "length seg = length pre"
  proof (rule ccontr)
    assume ne: "length seg \<noteq> length pre"
    show False
    proof (cases "length pre < length seg")
      case True
      with at have "seg ! length pre = CHR ''/''" by (simp add: nth_append)
      with True assms(1) show False by (metis nth_mem)
    next
      case False
      with ne have lt: "length seg < length pre" by simp
      with len have "rest \<noteq> []" by auto
      with assms(4) have "hd rest = CHR ''/''" by simp
      with \<open>rest \<noteq> []\<close> have "(seg @ rest) ! length seg = CHR ''/''"
        by (simp add: nth_append hd_conv_nth)
      moreover from pre lt have "(seg @ rest) ! length seg = pre ! length seg"
        by (metis nth_take)
      ultimately have "pre ! length seg = CHR ''/''" by simp
      with lt assms(2) show False by (metis nth_mem)
    qed
  qed
  with pre have "seg = pre" by simp
  moreover from len \<open>seg = pre\<close> have "rest \<noteq> []" by auto
  ultimately show ?thesis by simp
qed

lemma resolved_under_renders:
  assumes "starts_with ''/renders/'' (pathResolve wd p)"
  shows "strictly_under ''/renders'' (pathResolve wd p)"
proof -
  from pathResolve_shape [of wd p] assms
  obtain segs where segs: "segs \<noteq> []" "list_all proper_segment segs"
      "pathResolve wd p = join_slash segs"
    by (auto simp: starts_with_def)
  then obtain seg rest where sr: "segs = seg # rest" by (cases segs) auto
  from segs(2) sr have noslash: "CHR ''/'' \<notin> set seg" by (simp add: proper_segment_def)
  from assms segs(3) sr
  have t: "take (Suc (length ''renders'')) (seg @ join_slash rest) = ''renders'' @ ''/''"
    by (simp add: starts_with_def join_slash_Cons)
  have h: "join_slash rest = [] \<or> hd (join_slash rest) = CHR ''/''"
    using join_slash_head [of rest] by (cases rest) (simp_all add: join_slash_def)
  from prefix_segment [OF noslash _ t h] have "seg = ''renders''" "join_slash rest \<noteq> []"
    by simp_all
  then have "rest \<noteq> []" by (simp add: join_slash_Nil_iff)
  moreover from segs(2) sr have "list_all proper_segment rest" by simp
  moreover from segs(3) sr \<open>seg = ''renders''\<close>
  have "pathResolve wd p = ''/renders'' @ join_slash rest" by (simp add: join_slash_Cons)
  ultimately show ?thesis unfolding strictly_under_def by blast
qed

lemma strictly_under_starts:
  "strictly_under dir p \<Longrightarrow> starts_with (dir @ ''/'') p"
proof -
  assume "strictly_under dir p"
  then obtain segs where s: "segs \<noteq> []" "p = dir @ join_slash segs"
    by (auto simp: strictly_under_def)
  then obtain seg rest where "segs = seg # rest" by (cases segs) auto
  with s show ?thesis by (simp add: starts_with_def join_slash_Cons)
qed

lemma dirname_loop_segment:
  assumes "CHR ''/'' \<notin> set seg" and "A \<noteq> []" and "k \<le> length seg" and "\<not> ms \<or> 1 \<le> k"
  shows "dirname_loop (A @ CHR ''/'' # seg) (length A + k) ms = Some (length A)"
  using assms(3,4)
proof (induction k arbitrary: ms)
  case 0
  from assms(2) obtain n where n: "length A = Suc n" by (cases A) auto
  from 0 have "\<not> ms" by simp
  moreover have "(A @ CHR ''/'' # seg) ! Suc n = CHR ''/''" using n by (metis nth_append_length)
  ultimately show ?case using n by simp
next
  case (Suc k)
  have "(A @ CHR ''/'' # seg) ! Suc (length A + k) = seg ! k"
    by (simp add: nth_append)
  moreover from Suc.prems assms(1) have "seg ! k \<noteq> CHR ''/''" by (metis Suc_le_lessD nth_mem)
  moreover from Suc.prems have "dirname_loop (A @ CHR ''/'' # seg) (length A + k) False = Some (length A)"
    by (intro Suc.IH) simp_all
  ultimately show ?case by simp
qed

lemma dirname_segment:
  assumes "CHR ''/'' \<notin> set seg" and "seg \<noteq> []" and "1 < length A"
  shows "dirname (A @ CHR ''/'' # seg) = A"
proof -
  from assms(3) have A: "A \<noteq> []" by auto
  have "dirname_loop (A @ CHR ''/'' # seg) (length A + length seg) True = Some (length A)"
  proof (rule dirname_loop_segment [OF assms(1) A])
    show "length seg \<le> length seg" by simp
    from assms(2) show "\<not> True \<or> 1 \<le> length seg" by (cases seg) simp_all
  qed
  with assms(3) show ?thesis by (simp add: dirname_def)
qed

lemma join_slash_append: "join_slash (xs @ ys) = join_slash xs @ join_slash ys"
  by (simp add: join_slash_def)

lemma dirname_under:
  assumes "strictly_under ''/renders'' p"
  shows "dirname p = ''/renders'' \<or> strictly_under ''/renders'' (dirname p)"
proof -
  from assms obtain segs where s: "segs \<noteq> []" "list_all proper_segment segs"
      "p = ''/renders'' @ join_slash segs"
    by (auto simp: strictly_under_def)
  let ?init = "butlast segs" and ?seg = "last segs"
  from s(1) have split: "segs = ?init @ [?seg]" by simp
  from s(2) s(1) have seg: "proper_segment ?seg" by (simp add: list_all_iff)
  let ?A = "''/renders'' @ join_slash ?init"
  have p: "p = ?A @ CHR ''/'' # ?seg"
    using s(3) split by (metis append.assoc join_slash_append join_slash_Cons join_slash_def
        append_Nil2 concat.simps(1) list.simps(8))
  have "dirname p = ?A"
    unfolding p using seg by (intro dirname_segment) (simp_all add: proper_segment_def)
  moreover have "list_all proper_segment ?init"
    using s(2) by (metis split list_all_append)
  ultimately show ?thesis
    unfolding strictly_under_def by (cases "?init = []") (auto simp: join_slash_def)
qed

lemma renderVideo_Inr:
  assumes "renderVideo ex wd compositionId pj outputPath = Inr effs"
  shows "\<exists>cid out. compositionId = JString cid \<and> cid \<in> set VALID_COMPOSITIONS
           \<and> outputPath = JString out
           \<and> strictly_under RENDERS_DIR (pathResolve wd out)
           \<and> ProcSpawn (render_args cid (pathResolve wd out) pj) ''/app'' \<in> set effs
           \<and> list_all safe_effect effs"
proof -
  from assms obtain cid where c: "compositionId = JString cid" "cid \<in> set VALID_COMPOSITIONS"
    by (auto simp: renderVideo_def split: jsval.splits if_splits)
  from assms c obtain out where o: "outputPath = JString out"
    by (auto simp: renderVideo_def split: jsval.splits if_splits)
  from assms c o have st: "starts_with ''/renders/'' (pathResolve wd out)"
    by (auto simp: renderVideo_def RENDERS_DIR_def Let_def split: if_splits)
  then have u: "strictly_under RENDERS_DIR (pathResolve wd out)"
    unfolding RENDERS_DIR_def by (rule resolved_under_renders)
  from dirname_under [OF u [unfolded RENDERS_DIR_def]]
  have d: "safe_effect (FsMkdir (dirname (pathResolve wd out)))"
    by (simp add: safe_effect_def RENDERS_DIR_def)
  have sp: "safe_effect (ProcSpawn (render_args cid (pathResolve wd out) pj) ''/app'')"
    using c u by (auto simp: safe_effect_def)
  from assms c o st have effs: "effs = (if ex (dirname (pathResolve wd out)) then []
                     else [FsMkdir (dirname (pathResolve wd out))])
                  @ [ProcSpawn (render_args cid (pathResolve wd out) pj) ''/app'']"
    by (auto simp: renderVideo_def RENDERS_DIR_def Let_def split: if_splits)
  with d sp have "list_all safe_effect effs" by simp
  with c o u effs show ?thesis by auto
qed

text \<open>
  Claim C10. \<open>renderVideo\<close> throws \<open>Unknown compositionId\<close> for a composition that is
  not in the whitelist, and throws for an output path that does not resolve strictly
  under \<open>/renders\<close>; an error carries no effect, so nothing is spawned. When it does
  not throw, the composition is whitelisted, the resolved path lies strictly under
  \<open>/renders\<close>, the render is spawned with that composition and that path, and a
  directory it makes is \<open>/renders\<close> or lies under it. Every effect of every request
  to the server is of this kind.
\<close>

theorem renderVideo_guard:
  "(compositionId \<notin> JString ` set VALID_COMPOSITIONS \<longrightarrow>
      renderVideo ex wd compositionId pj outputPath = Inl UnknownCompositionId)
   \<and> (\<forall>out. outputPath = JString out \<and> \<not> strictly_under RENDERS_DIR (pathResolve wd out) \<longrightarrow>
         renderVideo ex wd compositionId pj outputPath \<in> {Inl UnknownCompositionId, Inl OutputPathOutside})
   \<and> (\<forall>effs. renderVideo ex wd compositionId pj outputPath = Inr effs \<longrightarrow>
         (\<exists>cid out. compositionId = JString cid \<and> cid \<in> set VALID_COMPOSITIONS
            \<and> outputPath = JString out
            \<and> starts_with (RENDERS_DIR @ ''/'') (pathResolve wd out)
            \<and> strictly_under RENDERS_DIR (pathResolve wd out)
            \<and> ProcSpawn (render_args cid (pathResolve wd out) pj) ''/app'' \<in> set effs
            \<and> list_all safe_effect effs))
   \<and> list_all safe_effect (snd (handleRequest w req))"
proof -
  have 1: "compositionId \<notin> JString ` set VALID_COMPOSITIONS \<longrightarrow>
      renderVideo ex wd compositionId pj outputPath = Inl UnknownCompositionId"
    by (auto simp: renderVideo_def split: jsval.splits)
  have 2: "\<forall>out. outputPath = JString out \<and> \<not> strictly_under RENDERS_DIR (pathResolve wd out) \<longrightarrow>
         renderVideo ex wd compositionId pj outputPath \<in> {Inl UnknownCompositionId, Inl OutputPathOutside}"
  proof (intro allI impI)
    fix out assume a: "outputPath = JString out \<and> \<not> strictly_under RENDERS_DIR (pathResolve wd out)"
    then have "\<not> starts_with (RENDERS_DIR @ ''/'') (pathResolve wd out)"
      using resolved_under_renders [of wd out] by (auto simp: RENDERS_DIR_def)
    with a show "renderVideo ex wd compositionId pj outputPath \<in> {Inl UnknownCompositionId, Inl OutputPathOutside}"
      by (auto simp: renderVideo_def Let_def split: jsval.splits)
  qed
  have 3: "\<forall>effs. renderVideo ex wd compositionId pj outputPath = Inr effs \<longrightarrow>
         (\<exists>cid out. compositionId = JString cid \<and> cid \<in> set VALID_COMPOSITIONS
            \<and> outputPath = JString out
            \<and> starts_with (RENDERS_DIR @ ''/'') (pathResolve wd out)
            \<and> strictly_under RENDERS_DIR (pathResolve wd out)
            \<and> ProcSpawn (render_args cid (pathResolve wd out) pj) ''/app'' \<in> set effs
            \<and> list_all safe_effect effs)"
    using renderVideo_Inr strictly_under_starts by blast
  have render: "list_all safe_effect (snd (handleRender w b))" for b
  proof (cases b)
    case (Parsed cid props out)
    show ?thesis
    proof (cases "renderVideo (dirExists w) (cwd w) cid props out")
      case (Inl e)
      with Parsed show ?thesis
        by (cases e) (auto simp: handleRender_def safe_effect_def)
    next
      case (Inr effs)
      from renderVideo_Inr [OF Inr] have safe: "list_all safe_effect effs" by blast
      then have "\<forall>d rest. effs = FsMkdir d # rest \<longrightarrow> safe_effect (FsMkdir d)" by auto
      with Parsed Inr safe show ?thesis
        by (auto simp: handleRender_def split: option.splits list.splits effect.splits
              render_outcome.splits)
    qed
  qed (simp_all add: handleRender_def)
  have 4: "list_all safe_effect (snd (handleRequest w req))"
    using render [of "reqBody req"]
    by (auto simp: handleRequest_def safe_effect_def split: option.splits)
  from 1 2 3 4 show ?thesis by blast
qed

text \<open>
  An unknown composition, a path that escapes through \<open>..\<close>, and a render that is
  started.
\<close>

theorem renderVideo_guard_witness:
  "JString ''Bogus'' \<notin> JString ` set VALID_COMPOSITIONS
   \<and> renderVideo no_dirs ''/app'' (JString ''Bogus'') ''{}'' (JString ''/renders/a.mp4'')
       = Inl UnknownCompositionId
   \<and> pathResolve ''/app'' ''/renders/../etc/passwd'' = ''/etc/passwd''
   \<and> renderVideo no_dirs ''/app'' (JString ''EpisodeCard'') ''{}'' (JString ''/renders/../etc/passwd'')
       = Inl OutputPathOutside
   \<and> renderVideo no_dirs ''/app'' (JString ''EpisodeCard'') ''{}'' (JString ''/renders/ep1/card.mp4'')
       = Inr [FsMkdir ''/renders/ep1'',
              ProcSpawn (render_args ''EpisodeCard'' ''/renders/ep1/card.mp4'' ''{}'') ''/app'']
   \<and> strictly_under RENDERS_DIR (pathResolve ''/app'' ''/renders/ep1/card.mp4'')"
proof -
  have b: "JString ''Bogus'' \<notin> JString ` set VALID_COMPOSITIONS"
    by (simp add: VALID_COMPOSITIONS_def)
  from renderVideo_guard [of "JString ''Bogus''" no_dirs "''/app''" "''{}''" "JString ''/renders/a.mp4''"] b
  have 1: "renderVideo no_dirs ''/app'' (JString ''Bogus'') ''{}'' (JString ''/renders/a.mp4'')
       = Inl UnknownCompositionId" by blast
  have r: "pathResolve ''/app'' ''/renders/../etc/passwd'' = ''/etc/passwd''" by code_simp
  have 2: "renderVideo no_dirs ''/app'' (JString ''EpisodeCard'') ''{}'' (JString ''/renders/../etc/passwd'')
       = Inl OutputPathOutside" by code_simp
  have 3: "renderVideo no_dirs ''/app'' (JString ''EpisodeCard'') ''{}'' (JString ''/renders/ep1/card.mp4'')
       = Inr [FsMkdir ''/renders/ep1'',
              ProcSpawn (render_args ''EpisodeCard'' ''/renders/ep1/card.mp4'' ''{}'') ''/app'']"
    by code_simp
  from renderVideo_guard [of "JString ''EpisodeCard''" no_dirs "''/app''" "''{}''"
      "JString ''/renders/ep1/card.mp4''"] 3
  have 4: "strictly_under RENDERS_DIR (pathResolve ''/app'' ''/renders/ep1/card.mp4'')" by blast
  from b 1 r 2 3 4 show ?thesis by blast
qed

end
